theory Spec2Isabelle
  imports Main "HOL-Library.Word"
begin

section \<open>Data model of the STM32F30x I2C driver\<close>

text \<open>
  The driver is \<^verbatim>\<open>src/main/drivers/bus_i2c_stm32f30x.c\<close>. Its enums become
  datatypes, its structs records, its fixed-width integers words. The peripheral is
  modelled from the driver's side: every command the driver issues is appended to a log,
  and every status the driver polls is taken from an observation that the environment
  supplies for each invocation of the state machine.
\<close>

type_synonym u8 = "8 word"
type_synonym u16 = "16 word"
type_synonym u32 = "32 word"

datatype i2cState_t =
    I2C_STATE_STOPPED
  | I2C_STATE_STOPPING
  | I2C_STATE_STARTING
  | I2C_STATE_STARTING_WAIT
  | I2C_STATE_R_ADDR
  | I2C_STATE_R_ADDR_WAIT
  | I2C_STATE_R_REGISTER
  | I2C_STATE_R_REGISTER_WAIT
  | I2C_STATE_R_RESTARTING
  | I2C_STATE_R_TRANSFER
  | I2C_STATE_W_ADDR
  | I2C_STATE_W_ADDR_WAIT
  | I2C_STATE_W_REGISTER
  | I2C_STATE_W_REGISTER_WAIT
  | I2C_STATE_W_RESTARTING
  | I2C_STATE_W_TRANSFER
  | I2C_STATE_NACK
  | I2C_STATE_BUS_ERROR

datatype i2cTransferDirection_t = I2C_TXN_READ | I2C_TXN_WRITE

text \<open>
  \<^verbatim>\<open>I2CDevice\<close> is declared in \<^verbatim>\<open>bus_i2c.h\<close>: an invalid marker and the bus
  identifiers, which the driver uses as array indices. \<open>I2CDEV n\<close> is the identifier
  whose integer value is \<open>n\<close>; the zero-initialised table entry holds \<open>I2CDEV 0\<close>.
\<close>

datatype I2CDevice = I2CINVALID | I2CDEV nat

datatype I2C_TypeDef = I2C1 | I2C2

text \<open>The default pin tags \<^verbatim>\<open>I2C1_SCL\<close>, \<^verbatim>\<open>I2C1_SDA\<close>, \<^verbatim>\<open>I2C2_SCL\<close>, \<^verbatim>\<open>I2C2_SDA\<close>.\<close>

datatype ioTag_t = PB6 | PB7 | PF4 | PA10

record i2cDevice_t =
  dev :: I2C_TypeDef
  scl :: ioTag_t
  sda :: ioTag_t
  rcc :: I2C_TypeDef
  overClock :: bool

record i2cBusState_t =
  device :: I2CDevice
  initialized :: bool
  state :: i2cState_t
  timeout :: u32
  addr :: u8
  rw :: i2cTransferDirection_t
  reg :: u8
  len :: u32
  buf :: nat
  txnOk :: bool

subsection \<open>The hardware as the driver sees it\<close>

datatype i2cFlag =
    I2C_ISR_STOPF
  | I2C_ISR_BUSY
  | I2C_ISR_TXIS
  | I2C_ISR_TC
  | I2C_ISR_RXNE
  | I2C_FLAG_NACKF
  | I2C_ICR_STOPCF

datatype endMode = I2C_SoftEnd_Mode | I2C_AutoEnd_Mode

datatype startStopMode =
    I2C_Generate_Start_Write
  | I2C_Generate_Start_Read
  | I2C_Generate_Stop
  | I2C_No_StartStop

datatype i2cClockSource = RCC_I2C1CLK_SYSCLK | RCC_I2C2CLK_SYSCLK

datatype resourceType = RESOURCE_I2C_SCL | RESOURCE_I2C_SDA

text \<open>
  One entry of the log for each command the driver issues, with its arguments as the
  callee receives them. The library declares
  \<^verbatim>\<open>I2C_TransferHandling(I2C_TypeDef*, uint16_t Address, uint8_t Number_Bytes, uint32_t, uint32_t)\<close>:
  the byte count is an 8-bit parameter. The driver passes its 8-bit \<^verbatim>\<open>addr\<close> as
  the address, which the wider parameter holds unchanged.
\<close>

datatype hw_event =
    TransferHandling I2C_TypeDef u8 u8 endMode startStopMode
  | SendData I2C_TypeDef u8
  | ReceiveData I2C_TypeDef u8
  | ClearFlag I2C_TypeDef i2cFlag
  | SetHi ioTag_t
  | SetLo ioTag_t
  | ConfigOutOD ioTag_t
  | Delay nat
  | ClockCmd I2C_TypeDef
  | I2CCLKConfig i2cClockSource
  | InitIO ioTag_t resourceType I2CDevice
  | ConfigAF ioTag_t
  | InitI2C I2C_TypeDef u32
  | StretchClockCmd I2C_TypeDef
  | EnableCmd I2C_TypeDef

text \<open>
  The output side of the hardware: the log of commands and the level each pin's output
  latch drives (\<open>True\<close> is high).
\<close>

record hw_state =
  hwlog :: "hw_event list"
  odr :: "ioTag_t \<Rightarrow> bool"

text \<open>
  What the hardware answers during one invocation of the state machine: the value each
  status flag has when it is polled, the byte the receive register delivers, and the
  level the \<open>k\<close>-th read of the clock line returns during a bus recovery.
\<close>

record hw_obs =
  flags :: "i2cFlag \<Rightarrow> bool"
  rxdr :: u8
  scl_in :: "nat \<Rightarrow> bool"

datatype error = BusStateOutOfBounds | HardwareMapOutOfBounds

text \<open>
  The globals of the driver (\<^verbatim>\<open>busState\<close>, \<^verbatim>\<open>i2cHardwareMap\<close>, \<^verbatim>\<open>i2cErrorCount\<close>),
  the hardware, the byte-addressed memory that \<^verbatim>\<open>buf\<close> points into, and the address
  of the static \<^verbatim>\<open>writeBuf\<close> of \<^verbatim>\<open>i2cWrite\<close>.
\<close>

record ctx =
  busState :: "i2cBusState_t list"
  i2cHardwareMap :: "i2cDevice_t list"
  i2cErrorCount :: u16
  hw :: hw_state
  mem :: "nat \<Rightarrow> u8"
  writeBuf :: nat

definition I2C_SHORT_TIMEOUT :: u32 where
  "I2C_SHORT_TIMEOUT = 0x1000"

definition I2C_LONG_TIMEOUT :: u32 where
  "I2C_LONG_TIMEOUT = 10 * I2C_SHORT_TIMEOUT"

definition I2C_HIGHSPEED_TIMING :: u32 where
  "I2C_HIGHSPEED_TIMING = 0x00500E30"

definition I2C_STANDARD_TIMING :: u32 where
  "I2C_STANDARD_TIMING = 0x00E0257A"

text \<open>
  \<^verbatim>\<open>static i2cBusState_t busState[] = { { 0 } };\<close> has as many elements as its
  initialiser, one; \<^verbatim>\<open>i2cHardwareMap\<close> has two. The overclock settings come from the
  target's configuration.
\<close>

definition zeroBusState :: i2cBusState_t where
  "zeroBusState = \<lparr>device = I2CDEV 0, initialized = False, state = I2C_STATE_STOPPED,
     timeout = 0, addr = 0, rw = I2C_TXN_READ, reg = 0, len = 0, buf = 0, txnOk = False\<rparr>"

definition busState_init :: "i2cBusState_t list" where
  "busState_init = [zeroBusState]"

definition i2cHardwareMap_init :: "bool \<Rightarrow> bool \<Rightarrow> i2cDevice_t list" where
  "i2cHardwareMap_init oc1 oc2 =
     [\<lparr>dev = I2C1, scl = PB6, sda = PB7, rcc = I2C1, overClock = oc1\<rparr>,
      \<lparr>dev = I2C2, scl = PF4, sda = PA10, rcc = I2C2, overClock = oc2\<rparr>]"

definition ctx_init :: "bool \<Rightarrow> bool \<Rightarrow> nat \<Rightarrow> (nat \<Rightarrow> u8) \<Rightarrow> ctx" where
  "ctx_init oc1 oc2 wb m =
     \<lparr>busState = busState_init, i2cHardwareMap = i2cHardwareMap_init oc1 oc2,
      i2cErrorCount = 0, hw = \<lparr>hwlog = [], odr = (\<lambda>p. False)\<rparr>, mem = m, writeBuf = wb\<rparr>"

subsection \<open>Hardware commands\<close>

definition emit :: "hw_event \<Rightarrow> hw_state \<Rightarrow> hw_state" where
  "emit e h = h\<lparr>hwlog := hwlog h @ [e]\<rparr>"

definition I2C_GetFlagStatus :: "hw_obs \<Rightarrow> i2cFlag \<Rightarrow> bool" where
  "I2C_GetFlagStatus obs f = flags obs f"

definition I2C_TransferHandling ::
    "I2C_TypeDef \<Rightarrow> u8 \<Rightarrow> u8 \<Rightarrow> endMode \<Rightarrow> startStopMode \<Rightarrow> hw_state \<Rightarrow> hw_state" where
  "I2C_TransferHandling I2Cx a n em ss = emit (TransferHandling I2Cx a n em ss)"

definition I2C_SendData :: "I2C_TypeDef \<Rightarrow> u8 \<Rightarrow> hw_state \<Rightarrow> hw_state" where
  "I2C_SendData I2Cx b = emit (SendData I2Cx b)"

definition I2C_ReceiveData :: "hw_obs \<Rightarrow> I2C_TypeDef \<Rightarrow> hw_state \<Rightarrow> u8 \<times> hw_state" where
  "I2C_ReceiveData obs I2Cx h = (rxdr obs, emit (ReceiveData I2Cx (rxdr obs)) h)"

definition I2C_ClearFlag :: "I2C_TypeDef \<Rightarrow> i2cFlag \<Rightarrow> hw_state \<Rightarrow> hw_state" where
  "I2C_ClearFlag I2Cx f = emit (ClearFlag I2Cx f)"

definition IOHi :: "ioTag_t \<Rightarrow> hw_state \<Rightarrow> hw_state" where
  "IOHi p h = emit (SetHi p) (h\<lparr>odr := (odr h)(p := True)\<rparr>)"

definition IOLo :: "ioTag_t \<Rightarrow> hw_state \<Rightarrow> hw_state" where
  "IOLo p h = emit (SetLo p) (h\<lparr>odr := (odr h)(p := False)\<rparr>)"

definition IOConfigGPIO :: "ioTag_t \<Rightarrow> hw_state \<Rightarrow> hw_state" where
  "IOConfigGPIO p = emit (ConfigOutOD p)"

definition delayMicroseconds :: "nat \<Rightarrow> hw_state \<Rightarrow> hw_state" where
  "delayMicroseconds us = emit (Delay us)"

definition IOGetByTag :: "ioTag_t \<Rightarrow> ioTag_t" where
  "IOGetByTag t = t"


subsection \<open>Bus recovery: \<^verbatim>\<open>i2cUnstick\<close>\<close>

text \<open>
  The inner loop \<^verbatim>\<open>while (!IORead(scl) && timeout) { delayMicroseconds(5); timeout--; }\<close>.
  \<open>rd k\<close> is the level the \<open>k\<close>-th read of the clock line returns; the loop reads the
  line once more than it delays. It returns the index of the next read.
\<close>

fun unstickWait :: "(nat \<Rightarrow> bool) \<Rightarrow> nat \<Rightarrow> nat \<Rightarrow> hw_state \<Rightarrow> nat \<times> hw_state" where
  "unstickWait rd k 0 h = (Suc k, h)"
| "unstickWait rd k (Suc t) h =
     (if \<not> rd k then unstickWait rd (Suc k) t (delayMicroseconds 5 h) else (Suc k, h))"

text \<open>The loop \<^verbatim>\<open>for (i = 0; i < 9; i++)\<close>, by the number of rounds still to run.\<close>

fun unstickPulses :: "(nat \<Rightarrow> bool) \<Rightarrow> ioTag_t \<Rightarrow> nat \<Rightarrow> nat \<Rightarrow> hw_state \<Rightarrow> nat \<times> hw_state" where
  "unstickPulses rd sclPin k 0 h = (k, h)"
| "unstickPulses rd sclPin k (Suc i) h =
     (let (k, h) = unstickWait rd k 100 h;
          h = IOLo sclPin h;
          h = delayMicroseconds 5 h;
          h = IOHi sclPin h;
          h = delayMicroseconds 5 h
      in unstickPulses rd sclPin k i h)"

definition i2cUnstick :: "(nat \<Rightarrow> bool) \<Rightarrow> ioTag_t \<Rightarrow> ioTag_t \<Rightarrow> hw_state \<Rightarrow> hw_state" where
  "i2cUnstick rd sclPin sdaPin h =
     (let h = IOHi sclPin h;
          h = IOHi sdaPin h;
          h = IOConfigGPIO sclPin h;
          h = IOConfigGPIO sdaPin h;
          (k, h) = unstickPulses rd sclPin 0 9 h;
          h = IOLo sclPin h;
          h = delayMicroseconds 5 h;
          h = IOLo sdaPin h;
          h = delayMicroseconds 5 h;
          h = IOHi sclPin h;
          h = delayMicroseconds 5 h;
          h = IOHi sdaPin h
      in h)"

subsection \<open>Initialisation and reset\<close>

definition i2cInit :: "I2CDevice \<Rightarrow> ctx \<Rightarrow> error + ctx" where
  "i2cInit dv c =
     (case dv of
        I2CINVALID \<Rightarrow> Inr c
      | I2CDEV n \<Rightarrow>
          if n < length (i2cHardwareMap c) then
            (let i2c = i2cHardwareMap c ! n;
                 sclPin = IOGetByTag (scl i2c);
                 sdaPin = IOGetByTag (sda i2c);
                 h = hw c;
                 h = emit (ClockCmd (rcc i2c)) h;
                 h = emit (I2CCLKConfig (if dev i2c = I2C2 then RCC_I2C2CLK_SYSCLK
                                         else RCC_I2C1CLK_SYSCLK)) h;
                 h = emit (InitIO sclPin RESOURCE_I2C_SCL dv) h;
                 h = emit (ConfigAF sclPin) h;
                 h = emit (InitIO sdaPin RESOURCE_I2C_SDA dv) h;
                 h = emit (ConfigAF sdaPin) h;
                 h = emit (InitI2C (dev i2c) (if overClock i2c then I2C_HIGHSPEED_TIMING
                                              else I2C_STANDARD_TIMING)) h;
                 h = emit (StretchClockCmd (dev i2c)) h;
                 h = emit (EnableCmd (dev i2c)) h
             in if n < length (busState c) then
                  Inr (c\<lparr>hw := h,
                         busState := (busState c)[n := (busState c ! n)
                           \<lparr>device := dv, initialized := True, state := I2C_STATE_STOPPED\<rparr>]\<rparr>)
                else Inl BusStateOutOfBounds)
          else Inl HardwareMapOutOfBounds)"

text \<open>
  \<^verbatim>\<open>i2cHardwareMap[device]\<close>: an index outside the table (the invalid marker is a
  negative index) is an error.
\<close>

definition hardwareMapAt :: "ctx \<Rightarrow> I2CDevice \<Rightarrow> i2cDevice_t option" where
  "hardwareMapAt c dv =
     (case dv of
        I2CINVALID \<Rightarrow> None
      | I2CDEV n \<Rightarrow> if n < length (i2cHardwareMap c) then Some (i2cHardwareMap c ! n) else None)"

text \<open>
  The pointer \<^verbatim>\<open>i2cBusState\<close> is the index \<open>d\<close> of the table entry it points to; the
  caller has checked that it is in range.
\<close>

definition i2cResetInterface :: "hw_obs \<Rightarrow> nat \<Rightarrow> ctx \<Rightarrow> error + ctx" where
  "i2cResetInterface obs d c =
     (case hardwareMapAt c (device (busState c ! d)) of
        None \<Rightarrow> Inl HardwareMapOutOfBounds
      | Some i2c \<Rightarrow>
          (let sclPin = IOGetByTag (scl i2c);
               sdaPin = IOGetByTag (sda i2c);
               c = c\<lparr>i2cErrorCount := i2cErrorCount c + 1\<rparr>;
               c = c\<lparr>hw := i2cUnstick (scl_in obs) sclPin sdaPin (hw c)\<rparr>
           in i2cInit (device (busState c ! d)) c))"

section \<open>The protocol state machine\<close>

text \<open>
  The body of each \<^verbatim>\<open>case\<close> of \<^verbatim>\<open>i2cStateMachine\<close> works on the bus state the
  pointer refers to, the hardware and the memory. A case that falls through is the
  composition of its own statements with the body of the next case. The test
  \<^verbatim>\<open>(timeout--) == 0\<close> compares the old value and decrements in every branch, wrapping
  at zero. The restarting states pass the 32-bit \<^verbatim>\<open>len\<close> where the library takes an
  8-bit count: the call converts it, keeping its low eight bits.
\<close>

type_synonym sm_view = "i2cBusState_t \<times> hw_state \<times> (nat \<Rightarrow> u8)"

definition case_STOPPING :: "hw_obs \<Rightarrow> I2C_TypeDef \<Rightarrow> sm_view \<Rightarrow> sm_view" where
  "case_STOPPING obs I2Cx v =
     (case v of (bs, h, m) \<Rightarrow>
        let t = timeout bs; bs = bs\<lparr>timeout := t - 1\<rparr> in
        if t = 0 then (bs\<lparr>state := I2C_STATE_BUS_ERROR\<rparr>, h, m)
        else if I2C_GetFlagStatus obs I2C_ISR_STOPF then
          (bs\<lparr>state := I2C_STATE_STOPPED\<rparr>, I2C_ClearFlag I2Cx I2C_ICR_STOPCF h, m)
        else (bs, h, m))"

definition case_STARTING_WAIT :: "hw_obs \<Rightarrow> I2C_TypeDef \<Rightarrow> sm_view \<Rightarrow> sm_view" where
  "case_STARTING_WAIT obs I2Cx v =
     (case v of (bs, h, m) \<Rightarrow>
        let t = timeout bs; bs = bs\<lparr>timeout := t - 1\<rparr> in
        if t = 0 then (bs\<lparr>state := I2C_STATE_BUS_ERROR\<rparr>, h, m)
        else if \<not> I2C_GetFlagStatus obs I2C_ISR_BUSY then
          (if rw bs = I2C_TXN_READ then (bs\<lparr>state := I2C_STATE_R_ADDR\<rparr>, h, m)
           else (bs\<lparr>state := I2C_STATE_W_ADDR\<rparr>, h, m))
        else (bs, h, m))"

definition case_STARTING :: "hw_obs \<Rightarrow> I2C_TypeDef \<Rightarrow> sm_view \<Rightarrow> sm_view" where
  "case_STARTING obs I2Cx v =
     (case v of (bs, h, m) \<Rightarrow>
        let bs = bs\<lparr>timeout := I2C_LONG_TIMEOUT\<rparr>;
            bs = bs\<lparr>state := I2C_STATE_STARTING_WAIT\<rparr>
        in case_STARTING_WAIT obs I2Cx (bs, h, m))"

definition case_R_ADDR_WAIT :: "hw_obs \<Rightarrow> I2C_TypeDef \<Rightarrow> sm_view \<Rightarrow> sm_view" where
  "case_R_ADDR_WAIT obs I2Cx v =
     (case v of (bs, h, m) \<Rightarrow>
        let t = timeout bs; bs = bs\<lparr>timeout := t - 1\<rparr> in
        if t = 0 then (bs\<lparr>state := I2C_STATE_BUS_ERROR\<rparr>, h, m)
        else if I2C_GetFlagStatus obs I2C_ISR_TXIS then (bs\<lparr>state := I2C_STATE_R_REGISTER\<rparr>, h, m)
        else if I2C_GetFlagStatus obs I2C_FLAG_NACKF then (bs\<lparr>state := I2C_STATE_NACK\<rparr>, h, m)
        else (bs, h, m))"

definition case_R_ADDR :: "hw_obs \<Rightarrow> I2C_TypeDef \<Rightarrow> sm_view \<Rightarrow> sm_view" where
  "case_R_ADDR obs I2Cx v =
     (case v of (bs, h, m) \<Rightarrow>
        let h = I2C_TransferHandling I2Cx (addr bs) 1 I2C_SoftEnd_Mode I2C_Generate_Start_Write h;
            bs = bs\<lparr>state := I2C_STATE_R_ADDR_WAIT\<rparr>;
            bs = bs\<lparr>timeout := I2C_LONG_TIMEOUT\<rparr>
        in case_R_ADDR_WAIT obs I2Cx (bs, h, m))"

definition case_R_REGISTER_WAIT :: "hw_obs \<Rightarrow> I2C_TypeDef \<Rightarrow> sm_view \<Rightarrow> sm_view" where
  "case_R_REGISTER_WAIT obs I2Cx v =
     (case v of (bs, h, m) \<Rightarrow>
        let t = timeout bs; bs = bs\<lparr>timeout := t - 1\<rparr> in
        if t = 0 then (bs\<lparr>state := I2C_STATE_BUS_ERROR\<rparr>, h, m)
        else if I2C_GetFlagStatus obs I2C_ISR_TC then
          (if len bs = 0 then
             (bs\<lparr>state := I2C_STATE_STOPPING\<rparr>,
              I2C_TransferHandling I2Cx (addr bs) 0 I2C_AutoEnd_Mode I2C_Generate_Stop h, m)
           else (bs\<lparr>state := I2C_STATE_R_RESTARTING\<rparr>, h, m))
        else if I2C_GetFlagStatus obs I2C_FLAG_NACKF then (bs\<lparr>state := I2C_STATE_NACK\<rparr>, h, m)
        else (bs, h, m))"

definition case_R_REGISTER :: "hw_obs \<Rightarrow> I2C_TypeDef \<Rightarrow> sm_view \<Rightarrow> sm_view" where
  "case_R_REGISTER obs I2Cx v =
     (case v of (bs, h, m) \<Rightarrow>
        let h = I2C_SendData I2Cx (reg bs) h;
            bs = bs\<lparr>state := I2C_STATE_R_REGISTER_WAIT\<rparr>;
            bs = bs\<lparr>timeout := I2C_LONG_TIMEOUT\<rparr>
        in case_R_REGISTER_WAIT obs I2Cx (bs, h, m))"

definition case_R_TRANSFER :: "hw_obs \<Rightarrow> I2C_TypeDef \<Rightarrow> sm_view \<Rightarrow> sm_view" where
  "case_R_TRANSFER obs I2Cx v =
     (case v of (bs, h, m) \<Rightarrow>
        let t = timeout bs; bs = bs\<lparr>timeout := t - 1\<rparr> in
        if t = 0 then (bs\<lparr>state := I2C_STATE_BUS_ERROR\<rparr>, h, m)
        else if I2C_GetFlagStatus obs I2C_ISR_RXNE then
          (let (b, h) = I2C_ReceiveData obs I2Cx h;
               m = m(buf bs := b);
               bs = bs\<lparr>buf := buf bs + 1\<rparr>;
               bs = bs\<lparr>len := len bs - 1\<rparr>;
               bs = (if len bs = 0 then bs\<lparr>txnOk := True, state := I2C_STATE_STOPPING\<rparr> else bs);
               bs = bs\<lparr>timeout := I2C_LONG_TIMEOUT\<rparr>
           in (bs, h, m))
        else (bs, h, m))"

definition case_R_RESTARTING :: "hw_obs \<Rightarrow> I2C_TypeDef \<Rightarrow> sm_view \<Rightarrow> sm_view" where
  "case_R_RESTARTING obs I2Cx v =
     (case v of (bs, h, m) \<Rightarrow>
        let h = I2C_TransferHandling I2Cx (addr bs) (ucast (len bs)) I2C_AutoEnd_Mode I2C_Generate_Start_Read h;
            bs = bs\<lparr>state := I2C_STATE_R_TRANSFER\<rparr>;
            bs = bs\<lparr>timeout := I2C_LONG_TIMEOUT\<rparr>
        in case_R_TRANSFER obs I2Cx (bs, h, m))"

definition case_W_ADDR_WAIT :: "hw_obs \<Rightarrow> I2C_TypeDef \<Rightarrow> sm_view \<Rightarrow> sm_view" where
  "case_W_ADDR_WAIT obs I2Cx v =
     (case v of (bs, h, m) \<Rightarrow>
        let t = timeout bs; bs = bs\<lparr>timeout := t - 1\<rparr> in
        if t = 0 then (bs\<lparr>state := I2C_STATE_BUS_ERROR\<rparr>, h, m)
        else if I2C_GetFlagStatus obs I2C_ISR_TXIS then (bs\<lparr>state := I2C_STATE_W_REGISTER\<rparr>, h, m)
        else if I2C_GetFlagStatus obs I2C_FLAG_NACKF then (bs\<lparr>state := I2C_STATE_NACK\<rparr>, h, m)
        else (bs, h, m))"

definition case_W_ADDR :: "hw_obs \<Rightarrow> I2C_TypeDef \<Rightarrow> sm_view \<Rightarrow> sm_view" where
  "case_W_ADDR obs I2Cx v =
     (case v of (bs, h, m) \<Rightarrow>
        let h = I2C_TransferHandling I2Cx (addr bs) 1 I2C_SoftEnd_Mode I2C_Generate_Start_Write h;
            bs = bs\<lparr>state := I2C_STATE_W_ADDR_WAIT\<rparr>;
            bs = bs\<lparr>timeout := I2C_LONG_TIMEOUT\<rparr>
        in case_W_ADDR_WAIT obs I2Cx (bs, h, m))"

definition case_W_REGISTER_WAIT :: "hw_obs \<Rightarrow> I2C_TypeDef \<Rightarrow> sm_view \<Rightarrow> sm_view" where
  "case_W_REGISTER_WAIT obs I2Cx v =
     (case v of (bs, h, m) \<Rightarrow>
        let t = timeout bs; bs = bs\<lparr>timeout := t - 1\<rparr> in
        if t = 0 then (bs\<lparr>state := I2C_STATE_BUS_ERROR\<rparr>, h, m)
        else if I2C_GetFlagStatus obs I2C_ISR_TC then
          (if len bs = 0 then
             (bs\<lparr>state := I2C_STATE_STOPPING\<rparr>,
              I2C_TransferHandling I2Cx (addr bs) 0 I2C_AutoEnd_Mode I2C_Generate_Stop h, m)
           else (bs\<lparr>state := I2C_STATE_W_RESTARTING\<rparr>, h, m))
        else if I2C_GetFlagStatus obs I2C_FLAG_NACKF then (bs\<lparr>state := I2C_STATE_NACK\<rparr>, h, m)
        else (bs, h, m))"

definition case_W_REGISTER :: "hw_obs \<Rightarrow> I2C_TypeDef \<Rightarrow> sm_view \<Rightarrow> sm_view" where
  "case_W_REGISTER obs I2Cx v =
     (case v of (bs, h, m) \<Rightarrow>
        let h = I2C_SendData I2Cx (reg bs) h;
            bs = bs\<lparr>state := I2C_STATE_W_REGISTER_WAIT\<rparr>;
            bs = bs\<lparr>timeout := I2C_LONG_TIMEOUT\<rparr>
        in case_W_REGISTER_WAIT obs I2Cx (bs, h, m))"

definition case_W_TRANSFER :: "hw_obs \<Rightarrow> I2C_TypeDef \<Rightarrow> sm_view \<Rightarrow> sm_view" where
  "case_W_TRANSFER obs I2Cx v =
     (case v of (bs, h, m) \<Rightarrow>
        let t = timeout bs; bs = bs\<lparr>timeout := t - 1\<rparr> in
        if t = 0 then (bs\<lparr>state := I2C_STATE_BUS_ERROR\<rparr>, h, m)
        else if I2C_GetFlagStatus obs I2C_ISR_TXIS then
          (let h = I2C_SendData I2Cx (m (buf bs)) h;
               bs = bs\<lparr>buf := buf bs + 1\<rparr>;
               bs = bs\<lparr>len := len bs - 1\<rparr>;
               bs = (if len bs = 0 then bs\<lparr>txnOk := True, state := I2C_STATE_STOPPING\<rparr> else bs);
               bs = bs\<lparr>timeout := I2C_LONG_TIMEOUT\<rparr>
           in (bs, h, m))
        else (bs, h, m))"

definition case_W_RESTARTING :: "hw_obs \<Rightarrow> I2C_TypeDef \<Rightarrow> sm_view \<Rightarrow> sm_view" where
  "case_W_RESTARTING obs I2Cx v =
     (case v of (bs, h, m) \<Rightarrow>
        let h = I2C_TransferHandling I2Cx (addr bs) (ucast (len bs)) I2C_AutoEnd_Mode I2C_No_StartStop h;
            bs = bs\<lparr>state := I2C_STATE_W_TRANSFER\<rparr>;
            bs = bs\<lparr>timeout := I2C_LONG_TIMEOUT\<rparr>
        in case_W_TRANSFER obs I2Cx (bs, h, m))"

definition case_NACK :: "hw_obs \<Rightarrow> I2C_TypeDef \<Rightarrow> sm_view \<Rightarrow> sm_view" where
  "case_NACK obs I2Cx v =
     (case v of (bs, h, m) \<Rightarrow>
        let h = I2C_TransferHandling I2Cx (addr bs) 0 I2C_AutoEnd_Mode I2C_Generate_Stop h;
            h = I2C_ClearFlag I2Cx I2C_FLAG_NACKF h;
            bs = bs\<lparr>state := I2C_STATE_STOPPING\<rparr>
        in (bs, h, m))"

text \<open>Writing the result of a case back through the pointer \<open>d\<close>.\<close>

definition onBus :: "nat \<Rightarrow> (sm_view \<Rightarrow> sm_view) \<Rightarrow> ctx \<Rightarrow> ctx" where
  "onBus d f c =
     (case f (busState c ! d, hw c, mem c) of
        (bs, h, m) \<Rightarrow> c\<lparr>busState := (busState c)[d := bs], hw := h, mem := m\<rparr>)"

definition i2cStateMachine :: "hw_obs \<Rightarrow> nat \<Rightarrow> ctx \<Rightarrow> error + ctx" where
  "i2cStateMachine obs d c =
     (if d < length (busState c) then
        (case hardwareMapAt c (device (busState c ! d)) of
           None \<Rightarrow> Inl HardwareMapOutOfBounds
         | Some i2c \<Rightarrow>
             (let I2Cx = dev i2c in
              case state (busState c ! d) of
                I2C_STATE_BUS_ERROR \<Rightarrow>
                  (case i2cResetInterface obs d c of
                     Inl e \<Rightarrow> Inl e
                   | Inr c \<Rightarrow>
                       Inr (c\<lparr>busState := (busState c)[d := (busState c ! d)
                              \<lparr>state := I2C_STATE_STOPPED\<rparr>]\<rparr>))
              | I2C_STATE_STOPPING \<Rightarrow> Inr (onBus d (case_STOPPING obs I2Cx) c)
              | I2C_STATE_STOPPED \<Rightarrow> Inr c
              | I2C_STATE_STARTING \<Rightarrow> Inr (onBus d (case_STARTING obs I2Cx) c)
              | I2C_STATE_STARTING_WAIT \<Rightarrow> Inr (onBus d (case_STARTING_WAIT obs I2Cx) c)
              | I2C_STATE_R_ADDR \<Rightarrow> Inr (onBus d (case_R_ADDR obs I2Cx) c)
              | I2C_STATE_R_ADDR_WAIT \<Rightarrow> Inr (onBus d (case_R_ADDR_WAIT obs I2Cx) c)
              | I2C_STATE_R_REGISTER \<Rightarrow> Inr (onBus d (case_R_REGISTER obs I2Cx) c)
              | I2C_STATE_R_REGISTER_WAIT \<Rightarrow> Inr (onBus d (case_R_REGISTER_WAIT obs I2Cx) c)
              | I2C_STATE_R_RESTARTING \<Rightarrow> Inr (onBus d (case_R_RESTARTING obs I2Cx) c)
              | I2C_STATE_R_TRANSFER \<Rightarrow> Inr (onBus d (case_R_TRANSFER obs I2Cx) c)
              | I2C_STATE_W_ADDR \<Rightarrow> Inr (onBus d (case_W_ADDR obs I2Cx) c)
              | I2C_STATE_W_ADDR_WAIT \<Rightarrow> Inr (onBus d (case_W_ADDR_WAIT obs I2Cx) c)
              | I2C_STATE_W_REGISTER \<Rightarrow> Inr (onBus d (case_W_REGISTER obs I2Cx) c)
              | I2C_STATE_W_REGISTER_WAIT \<Rightarrow> Inr (onBus d (case_W_REGISTER_WAIT obs I2Cx) c)
              | I2C_STATE_W_RESTARTING \<Rightarrow> Inr (onBus d (case_W_RESTARTING obs I2Cx) c)
              | I2C_STATE_W_TRANSFER \<Rightarrow> Inr (onBus d (case_W_TRANSFER obs I2Cx) c)
              | I2C_STATE_NACK \<Rightarrow> Inr (onBus d (case_NACK obs I2Cx) c)))
      else Inl BusStateOutOfBounds)"

definition i2cGetErrorCounter :: "ctx \<Rightarrow> u16" where
  "i2cGetErrorCounter c = i2cErrorCount c"

definition i2cSetOverclock :: "u8 \<Rightarrow> ctx \<Rightarrow> ctx" where
  "i2cSetOverclock oc c =
     c\<lparr>i2cHardwareMap := map (\<lambda>i2c. i2c\<lparr>overClock := (oc \<noteq> 0)\<rparr>) (i2cHardwareMap c)\<rparr>"

definition i2cTimeoutUserCallback :: "ctx \<Rightarrow> u32 \<times> ctx" where
  "i2cTimeoutUserCallback c = (0, c\<lparr>i2cErrorCount := i2cErrorCount c + 1\<rparr>)"


section \<open>The blocking transaction API\<close>

subsection \<open>A measure of the polls a transaction has left\<close>

text \<open>
  \<^verbatim>\<open>i2cWaitForCompletion\<close> is a \<^verbatim>\<open>do ... while\<close> loop with no counter of its own. It ends
  because every invocation of the state machine that does not reach the stopped state
  lowers the following measure: each state is worth more than every state that can
  follow it, a waiting state is worth its countdown, and a transfer state in addition
  the bytes it still has to move (a remaining count of zero wraps and stands for
  \<open>2 ^ 32\<close> bytes).
\<close>

definition lenWeight :: "u32 \<Rightarrow> nat" where
  "lenWeight l = (if l = 0 then 2 ^ 32 else unat l)"

definition rank :: "i2cBusState_t \<Rightarrow> nat" where
  "rank bs =
     (let t = unat (timeout bs); w = lenWeight (len bs) * 40961 in
      case state bs of
        I2C_STATE_STOPPED \<Rightarrow> 0
      | I2C_STATE_BUS_ERROR \<Rightarrow> 1
      | I2C_STATE_STOPPING \<Rightarrow> 2 + t
      | I2C_STATE_NACK \<Rightarrow> 3 + t
      | I2C_STATE_R_TRANSFER \<Rightarrow> 3 + t + w
      | I2C_STATE_W_TRANSFER \<Rightarrow> 3 + t + w
      | I2C_STATE_R_RESTARTING \<Rightarrow> 40964 + w
      | I2C_STATE_W_RESTARTING \<Rightarrow> 40964 + w
      | I2C_STATE_R_REGISTER_WAIT \<Rightarrow> 40965 + w + t
      | I2C_STATE_W_REGISTER_WAIT \<Rightarrow> 40965 + w + t
      | I2C_STATE_R_REGISTER \<Rightarrow> 81926 + w
      | I2C_STATE_W_REGISTER \<Rightarrow> 81926 + w
      | I2C_STATE_R_ADDR_WAIT \<Rightarrow> 81927 + w + t
      | I2C_STATE_W_ADDR_WAIT \<Rightarrow> 81927 + w + t
      | I2C_STATE_R_ADDR \<Rightarrow> 122888 + w
      | I2C_STATE_W_ADDR \<Rightarrow> 122888 + w
      | I2C_STATE_STARTING_WAIT \<Rightarrow> 122889 + w + t
      | I2C_STATE_STARTING \<Rightarrow> 163850 + w)"

lemma unat_LONG: "unat I2C_LONG_TIMEOUT = 40960"
  by (simp add: I2C_LONG_TIMEOUT_def I2C_SHORT_TIMEOUT_def)

lemma LONG_nz: "I2C_LONG_TIMEOUT \<noteq> 0"
  by (simp add: I2C_LONG_TIMEOUT_def I2C_SHORT_TIMEOUT_def)

lemma unat_dec: "(t::u32) \<noteq> 0 \<Longrightarrow> unat (t - 1) = unat t - 1 \<and> 0 < unat t"
  by (simp add: unat_minus_one unat_gt_0)

lemma lenWeight_pos: "0 < lenWeight l"
  by (simp add: lenWeight_def unat_gt_0)

lemma lenWeight_dec: "l - 1 \<noteq> 0 \<Longrightarrow> Suc (lenWeight (l - 1)) \<le> lenWeight l"
  apply (cases "l = 0")
   apply (simp add: lenWeight_def unsigned_minus_1_eq_mask mask_eq_exp_minus_1)
  apply (simp add: lenWeight_def unat_dec)
  done

lemma rank_STOPPING:
  "state bs = I2C_STATE_STOPPING \<Longrightarrow> case_STOPPING obs X (bs, h, m) = (bs', h', m')
   \<Longrightarrow> state bs' \<noteq> I2C_STATE_STOPPED \<Longrightarrow> rank bs' < rank bs"
  by (auto simp: case_STOPPING_def rank_def Let_def unat_dec split: if_splits)


lemma rank_STARTING:
  "state bs = I2C_STATE_STARTING \<Longrightarrow> case_STARTING obs X (bs, h, m) = (bs', h', m')
   \<Longrightarrow> rank bs' < rank bs"
  by (auto simp: case_STARTING_def case_STARTING_WAIT_def rank_def Let_def unat_dec unat_LONG LONG_nz split: if_splits)

lemma rank_R_TRANSFER:
  "state bs = I2C_STATE_R_TRANSFER \<Longrightarrow> case_R_TRANSFER obs X (bs, h, m) = (bs', h', m')
   \<Longrightarrow> rank bs' < rank bs"
  using lenWeight_pos[of "len bs"] lenWeight_dec[of "len bs"]
  by (auto simp: case_R_TRANSFER_def rank_def Let_def unat_dec unat_LONG LONG_nz I2C_ReceiveData_def split: if_splits)


lemma rank_cases:
  "state bs = I2C_STATE_STARTING_WAIT \<Longrightarrow> case_STARTING_WAIT obs X (bs, h, m) = (bs', h', m') \<Longrightarrow> rank bs' < rank bs"
  "state bs = I2C_STATE_R_ADDR \<Longrightarrow> case_R_ADDR obs X (bs, h, m) = (bs', h', m') \<Longrightarrow> rank bs' < rank bs"
  "state bs = I2C_STATE_R_ADDR_WAIT \<Longrightarrow> case_R_ADDR_WAIT obs X (bs, h, m) = (bs', h', m') \<Longrightarrow> rank bs' < rank bs"
  "state bs = I2C_STATE_R_REGISTER \<Longrightarrow> case_R_REGISTER obs X (bs, h, m) = (bs', h', m') \<Longrightarrow> rank bs' < rank bs"
  "state bs = I2C_STATE_R_REGISTER_WAIT \<Longrightarrow> case_R_REGISTER_WAIT obs X (bs, h, m) = (bs', h', m') \<Longrightarrow> rank bs' < rank bs"
  "state bs = I2C_STATE_W_ADDR \<Longrightarrow> case_W_ADDR obs X (bs, h, m) = (bs', h', m') \<Longrightarrow> rank bs' < rank bs"
  "state bs = I2C_STATE_W_ADDR_WAIT \<Longrightarrow> case_W_ADDR_WAIT obs X (bs, h, m) = (bs', h', m') \<Longrightarrow> rank bs' < rank bs"
  "state bs = I2C_STATE_W_REGISTER \<Longrightarrow> case_W_REGISTER obs X (bs, h, m) = (bs', h', m') \<Longrightarrow> rank bs' < rank bs"
  "state bs = I2C_STATE_W_REGISTER_WAIT \<Longrightarrow> case_W_REGISTER_WAIT obs X (bs, h, m) = (bs', h', m') \<Longrightarrow> rank bs' < rank bs"
  "state bs = I2C_STATE_NACK \<Longrightarrow> case_NACK obs X (bs, h, m) = (bs', h', m') \<Longrightarrow> rank bs' < rank bs"
  by (auto simp: case_STARTING_WAIT_def case_R_ADDR_def case_R_ADDR_WAIT_def case_R_REGISTER_def
      case_R_REGISTER_WAIT_def case_W_ADDR_def case_W_ADDR_WAIT_def case_W_REGISTER_def
      case_W_REGISTER_WAIT_def case_NACK_def
      rank_def Let_def unat_dec unat_LONG LONG_nz split: if_splits)

lemma rank_W_TRANSFER:
  "state bs = I2C_STATE_W_TRANSFER \<Longrightarrow> case_W_TRANSFER obs X (bs, h, m) = (bs', h', m')
   \<Longrightarrow> rank bs' < rank bs"
  using lenWeight_pos[of "len bs"] lenWeight_dec[of "len bs"]
  by (auto simp: case_W_TRANSFER_def rank_def Let_def unat_dec unat_LONG LONG_nz split: if_splits)

lemma rank_R_RESTARTING:
  "state bs = I2C_STATE_R_RESTARTING \<Longrightarrow> case_R_RESTARTING obs X (bs, h, m) = (bs', h', m')
   \<Longrightarrow> rank bs' < rank bs"
  using lenWeight_pos[of "len bs"] lenWeight_dec[of "len bs"]
  by (auto simp: case_R_RESTARTING_def case_R_TRANSFER_def rank_def Let_def unat_dec unat_LONG LONG_nz I2C_ReceiveData_def split: if_splits)

lemma rank_W_RESTARTING:
  "state bs = I2C_STATE_W_RESTARTING \<Longrightarrow> case_W_RESTARTING obs X (bs, h, m) = (bs', h', m')
   \<Longrightarrow> rank bs' < rank bs"
  using lenWeight_pos[of "len bs"] lenWeight_dec[of "len bs"]
  by (auto simp: case_W_RESTARTING_def case_W_TRANSFER_def rank_def Let_def unat_dec unat_LONG LONG_nz split: if_splits)

lemma onBus_at:
  "d < length (busState c) \<Longrightarrow> busState (onBus d f c) ! d = fst (f (busState c ! d, hw c, mem c))"
  by (simp add: onBus_def split: prod.splits)

lemma i2cInit_length:
  "i2cInit dv c = Inr c' \<Longrightarrow> length (busState c') = length (busState c)"
  by (auto simp: i2cInit_def Let_def split: I2CDevice.splits if_splits)

lemma i2cResetInterface_length:
  "i2cResetInterface obs d c = Inr c' \<Longrightarrow> length (busState c') = length (busState c)"
  by (auto simp: i2cResetInterface_def Let_def dest!: i2cInit_length split: option.splits)


text \<open>The dispatch of the \<^verbatim>\<open>switch\<close> for the states other than the bus error.\<close>

fun smCase :: "i2cState_t \<Rightarrow> hw_obs \<Rightarrow> I2C_TypeDef \<Rightarrow> sm_view \<Rightarrow> sm_view" where
  "smCase I2C_STATE_STOPPED = (\<lambda>obs X v. v)"
| "smCase I2C_STATE_STOPPING = case_STOPPING"
| "smCase I2C_STATE_STARTING = case_STARTING"
| "smCase I2C_STATE_STARTING_WAIT = case_STARTING_WAIT"
| "smCase I2C_STATE_R_ADDR = case_R_ADDR"
| "smCase I2C_STATE_R_ADDR_WAIT = case_R_ADDR_WAIT"
| "smCase I2C_STATE_R_REGISTER = case_R_REGISTER"
| "smCase I2C_STATE_R_REGISTER_WAIT = case_R_REGISTER_WAIT"
| "smCase I2C_STATE_R_RESTARTING = case_R_RESTARTING"
| "smCase I2C_STATE_R_TRANSFER = case_R_TRANSFER"
| "smCase I2C_STATE_W_ADDR = case_W_ADDR"
| "smCase I2C_STATE_W_ADDR_WAIT = case_W_ADDR_WAIT"
| "smCase I2C_STATE_W_REGISTER = case_W_REGISTER"
| "smCase I2C_STATE_W_REGISTER_WAIT = case_W_REGISTER_WAIT"
| "smCase I2C_STATE_W_RESTARTING = case_W_RESTARTING"
| "smCase I2C_STATE_W_TRANSFER = case_W_TRANSFER"
| "smCase I2C_STATE_NACK = case_NACK"
| "smCase I2C_STATE_BUS_ERROR = (\<lambda>obs X v. v)"

lemma onBus_id: "d < length (busState c) \<Longrightarrow> onBus d (\<lambda>v. v) c = c"
  by (simp add: onBus_def)

lemma sm_step_eq:
  assumes "d < length (busState c)"
    and "hardwareMapAt c (device (busState c ! d)) = Some i2c"
    and "state (busState c ! d) \<noteq> I2C_STATE_BUS_ERROR"
  shows "i2cStateMachine obs d c = Inr (onBus d (smCase (state (busState c ! d)) obs (dev i2c)) c)"
  using assms by (cases "state (busState c ! d)") (simp_all add: i2cStateMachine_def onBus_id)

lemma rank_smCase:
  assumes "smCase (state bs) obs X (bs, h, m) = (bs', h', m')"
    and "state bs' \<noteq> I2C_STATE_STOPPED" and "state bs \<noteq> I2C_STATE_BUS_ERROR"
  shows "rank bs' < rank bs"
  using assms
  by (cases "state bs")
     (auto intro: rank_cases rank_STARTING rank_STOPPING rank_R_TRANSFER rank_W_TRANSFER
        rank_R_RESTARTING rank_W_RESTARTING)

lemma sm_rank:
  assumes "i2cStateMachine obs d c = Inr c'"
    and "state (busState c' ! d) \<noteq> I2C_STATE_STOPPED"
  shows "rank (busState c' ! d) < rank (busState c ! d)"
proof -
  from assms(1) have d: "d < length (busState c)"
    by (simp add: i2cStateMachine_def split: if_splits)
  from assms(1) d obtain i2c where i2c: "hardwareMapAt c (device (busState c ! d)) = Some i2c"
    by (auto simp: i2cStateMachine_def split: option.splits)
  show ?thesis
  proof (cases "state (busState c ! d) = I2C_STATE_BUS_ERROR")
    case True
    with assms d i2c show ?thesis
      by (auto simp: i2cStateMachine_def dest!: i2cResetInterface_length split: sum.splits)
  next
    case False
    let ?f = "smCase (state (busState c ! d)) obs (dev i2c)"
    from sm_step_eq[OF d i2c False] assms(1) have c': "c' = onBus d ?f c" by simp
    obtain bs' h' m' where f: "?f (busState c ! d, hw c, mem c) = (bs', h', m')"
      by (cases "?f (busState c ! d, hw c, mem c)") auto
    with c' d have "busState c' ! d = bs'" by (simp add: onBus_def)
    with rank_smCase[OF f] assms(2) False show ?thesis by simp
  qed
qed

subsection \<open>\<^verbatim>\<open>i2cWaitForCompletion\<close>, \<^verbatim>\<open>i2cRead\<close> and \<^verbatim>\<open>i2cWrite\<close>\<close>

text \<open>
  \<open>env k\<close> is what the hardware answers during the \<open>k\<close>-th invocation of the state
  machine. The pointer \<^verbatim>\<open>&busState[device]\<close> is the index of the device; the invalid
  marker and an index outside the table are errors.
\<close>

function i2cWaitForCompletion :: "(nat \<Rightarrow> hw_obs) \<Rightarrow> nat \<Rightarrow> I2CDevice \<Rightarrow> ctx \<Rightarrow> error + ctx" where
  "i2cWaitForCompletion env n dv c =
     (case dv of
        I2CINVALID \<Rightarrow> Inl BusStateOutOfBounds
      | I2CDEV d \<Rightarrow>
          (case i2cStateMachine (env n) d c of
             Inl e \<Rightarrow> Inl e
           | Inr c' \<Rightarrow>
               if state (busState c' ! d) \<noteq> I2C_STATE_STOPPED
               then i2cWaitForCompletion env (Suc n) dv c'
               else Inr c'))"
  by pat_completeness auto
termination
  by (relation "measure (\<lambda>(env, n, dv, c).
        case dv of I2CINVALID \<Rightarrow> 0 | I2CDEV d \<Rightarrow> rank (busState c ! d))")
     (auto simp: sm_rank)

text \<open>
  The bus state after each invocation of the state machine in the same loop: the history
  of a transaction, which says which states it went through.
\<close>

function i2cPollTrace :: "(nat \<Rightarrow> hw_obs) \<Rightarrow> nat \<Rightarrow> I2CDevice \<Rightarrow> ctx \<Rightarrow> i2cBusState_t list" where
  "i2cPollTrace env n dv c =
     (case dv of
        I2CINVALID \<Rightarrow> []
      | I2CDEV d \<Rightarrow>
          (case i2cStateMachine (env n) d c of
             Inl e \<Rightarrow> []
           | Inr c' \<Rightarrow>
               busState c' ! d #
               (if state (busState c' ! d) \<noteq> I2C_STATE_STOPPED
                then i2cPollTrace env (Suc n) dv c'
                else [])))"
  by pat_completeness auto
termination
  by (relation "measure (\<lambda>(env, n, dv, c).
        case dv of I2CINVALID \<Rightarrow> 0 | I2CDEV d \<Rightarrow> rank (busState c ! d))")
     (auto simp: sm_rank)


definition i2cWriteSetup :: "nat \<Rightarrow> u8 \<Rightarrow> u8 \<Rightarrow> u8 \<Rightarrow> ctx \<Rightarrow> ctx" where
  "i2cWriteSetup d a r b c =
     (let c = c\<lparr>mem := (mem c)(writeBuf c := b)\<rparr> in
      c\<lparr>busState := (busState c)[d := (busState c ! d)
          \<lparr>addr := push_bit 1 a, reg := r, rw := I2C_TXN_WRITE, len := 1, buf := writeBuf c,
           txnOk := False, state := I2C_STATE_STARTING\<rparr>]\<rparr>)"

definition i2cWrite ::
    "(nat \<Rightarrow> hw_obs) \<Rightarrow> I2CDevice \<Rightarrow> u8 \<Rightarrow> u8 \<Rightarrow> u8 \<Rightarrow> ctx \<Rightarrow> error + (bool \<times> ctx)" where
  "i2cWrite env dv a r b c =
     (case dv of
        I2CINVALID \<Rightarrow> Inl BusStateOutOfBounds
      | I2CDEV d \<Rightarrow>
          if d < length (busState c) then
            (case i2cWaitForCompletion env 0 dv (i2cWriteSetup d a r b c) of
               Inl e \<Rightarrow> Inl e
             | Inr c \<Rightarrow> Inr (txnOk (busState c ! d), c))
          else Inl BusStateOutOfBounds)"

definition i2cReadSetup :: "nat \<Rightarrow> u8 \<Rightarrow> u8 \<Rightarrow> u8 \<Rightarrow> nat \<Rightarrow> ctx \<Rightarrow> ctx" where
  "i2cReadSetup d a r l b c =
     c\<lparr>busState := (busState c)[d := (busState c ! d)
         \<lparr>addr := push_bit 1 a, reg := r, rw := I2C_TXN_READ, len := ucast l, buf := b,
          txnOk := False, state := I2C_STATE_STARTING\<rparr>]\<rparr>"

definition i2cRead ::
    "(nat \<Rightarrow> hw_obs) \<Rightarrow> I2CDevice \<Rightarrow> u8 \<Rightarrow> u8 \<Rightarrow> u8 \<Rightarrow> nat \<Rightarrow> ctx \<Rightarrow> error + (bool \<times> ctx)" where
  "i2cRead env dv a r l b c =
     (case dv of
        I2CINVALID \<Rightarrow> Inl BusStateOutOfBounds
      | I2CDEV d \<Rightarrow>
          if d < length (busState c) then
            (case i2cWaitForCompletion env 0 dv (i2cReadSetup d a r l b c) of
               Inl e \<Rightarrow> Inl e
             | Inr c \<Rightarrow> Inr (txnOk (busState c ! d), c))
          else Inl BusStateOutOfBounds)"


section \<open>Stepping and looping: shared lemmas\<close>

lemma emit_simps [simp]: "hwlog (emit e h) = hwlog h @ [e]" "odr (emit e h) = odr h"
  by (simp_all add: emit_def)

lemma io_simps [simp]:
  "hwlog (IOHi p h) = hwlog h @ [SetHi p]" "odr (IOHi p h) = (odr h)(p := True)"
  "hwlog (IOLo p h) = hwlog h @ [SetLo p]" "odr (IOLo p h) = (odr h)(p := False)"
  "hwlog (IOConfigGPIO p h) = hwlog h @ [ConfigOutOD p]" "odr (IOConfigGPIO p h) = odr h"
  "hwlog (delayMicroseconds us h) = hwlog h @ [Delay us]" "odr (delayMicroseconds us h) = odr h"
  by (simp_all add: IOHi_def IOLo_def IOConfigGPIO_def delayMicroseconds_def)

declare i2cWaitForCompletion.simps [simp del]
declare i2cPollTrace.simps [simp del]

text \<open>
  A bus is usable when its entry exists in both tables and names itself: what
  \<^verbatim>\<open>i2cInit\<close> establishes, and what holds of the first bus from the start.
\<close>

definition busOk :: "nat \<Rightarrow> ctx \<Rightarrow> bool" where
  "busOk d c \<longleftrightarrow> d < length (busState c) \<and> d < length (i2cHardwareMap c)
     \<and> device (busState c ! d) = I2CDEV d"

text \<open>The commands \<^verbatim>\<open>i2cInit\<close> issues for a device, in order.\<close>

definition initEvents :: "I2CDevice \<Rightarrow> i2cDevice_t \<Rightarrow> hw_event list" where
  "initEvents dv i2c =
     [ClockCmd (rcc i2c),
      I2CCLKConfig (if dev i2c = I2C2 then RCC_I2C2CLK_SYSCLK else RCC_I2C1CLK_SYSCLK),
      InitIO (scl i2c) RESOURCE_I2C_SCL dv, ConfigAF (scl i2c),
      InitIO (sda i2c) RESOURCE_I2C_SDA dv, ConfigAF (sda i2c),
      InitI2C (dev i2c) (if overClock i2c then I2C_HIGHSPEED_TIMING else I2C_STANDARD_TIMING),
      StretchClockCmd (dev i2c), EnableCmd (dev i2c)]"

lemma i2cInit_busOk:
  "i2cInit (I2CDEV d) c = Inr c' \<Longrightarrow> busOk d c'"
  by (auto simp: i2cInit_def busOk_def Let_def split: if_splits)

lemma step_regular:
  assumes "busOk d c" and "state (busState c ! d) \<noteq> I2C_STATE_BUS_ERROR"
    and "smCase (state (busState c ! d)) obs (dev (i2cHardwareMap c ! d))
           (busState c ! d, hw c, mem c) = (bs', h', m')"
  shows "i2cStateMachine obs d c = Inr (c\<lparr>busState := (busState c)[d := bs'], hw := h', mem := m'\<rparr>)"
proof -
  from assms(1) have d: "d < length (busState c)"
    and hm: "hardwareMapAt c (device (busState c ! d)) = Some (i2cHardwareMap c ! d)"
    by (simp_all add: busOk_def hardwareMapAt_def)
  from sm_step_eq[OF d hm assms(2)] assms(3) show ?thesis
    by (simp add: onBus_def)
qed

lemma step_bus_error:
  assumes "busOk d c" and "state (busState c ! d) = I2C_STATE_BUS_ERROR"
  shows "\<exists>c'. i2cStateMachine obs d c = Inr c'
     \<and> busState c' = (busState c)[d := (busState c ! d)
           \<lparr>device := I2CDEV d, initialized := True, state := I2C_STATE_STOPPED\<rparr>]
     \<and> i2cErrorCount c' = i2cErrorCount c + 1
     \<and> hwlog (hw c') = hwlog (i2cUnstick (scl_in obs) (scl (i2cHardwareMap c ! d))
                           (sda (i2cHardwareMap c ! d)) (hw c))
                       @ initEvents (I2CDEV d) (i2cHardwareMap c ! d)
     \<and> odr (hw c') = odr (i2cUnstick (scl_in obs) (scl (i2cHardwareMap c ! d))
                           (sda (i2cHardwareMap c ! d)) (hw c))
     \<and> mem c' = mem c \<and> i2cHardwareMap c' = i2cHardwareMap c \<and> writeBuf c' = writeBuf c"
  using assms
  by (simp add: busOk_def i2cStateMachine_def hardwareMapAt_def i2cResetInterface_def
      i2cInit_def Let_def initEvents_def IOGetByTag_def)

lemma busOk_update [simp]:
  "busOk d (c\<lparr>busState := (busState c)[d := bs'], hw := h', mem := m'\<rparr>)
     \<longleftrightarrow> d < length (busState c) \<and> d < length (i2cHardwareMap c) \<and> device bs' = I2CDEV d"
  by (auto simp: busOk_def)

text \<open>
  Invariant rules for the polling loop. \<open>E\<close> restricts what the hardware answers,
  \<open>G\<close> is assumed of every bus state the loop goes through, and \<open>V\<close> of at least one.
\<close>

lemma wait_rule:
  assumes "J c" and "\<forall>k. E (env k)"
    and "\<forall>bs\<in>set (i2cPollTrace env n (I2CDEV d) c). G bs"
    and step: "\<And>obs c. E obs \<Longrightarrow> J c \<Longrightarrow>
        \<exists>c'. i2cStateMachine obs d c = Inr c' \<and> (G (busState c' ! d) \<longrightarrow> J c')"
  shows "\<exists>c'. i2cWaitForCompletion env n (I2CDEV d) c = Inr c' \<and> J c'
           \<and> state (busState c' ! d) = I2C_STATE_STOPPED"
  using assms(1,2,3)
proof (induction env n "I2CDEV d" c rule: i2cWaitForCompletion.induct)
  case (1 env n c)
  from "1.prems"(2) have "E (env n)" by simp
  from step[OF this "1.prems"(1)] obtain c1 where
    c1: "i2cStateMachine (env n) d c = Inr c1" "G (busState c1 ! d) \<longrightarrow> J c1" by blast
  from "1.prems"(3) c1(1) have g: "G (busState c1 ! d)"
    by (subst (asm) i2cPollTrace.simps) simp
  with c1 have j: "J c1" by simp
  show ?case
  proof (cases "state (busState c1 ! d) = I2C_STATE_STOPPED")
    case True
    with c1 j show ?thesis by (subst i2cWaitForCompletion.simps) simp
  next
    case False
    from "1.prems"(3) c1(1) False have "\<forall>bs\<in>set (i2cPollTrace env (Suc n) (I2CDEV d) c1). G bs"
      by (subst (asm) i2cPollTrace.simps) simp
    from "1.hyps"[OF refl c1(1) False j "1.prems"(2) this] c1(1) False show ?thesis
      by (subst i2cWaitForCompletion.simps) simp
  qed
qed

lemma wait_rule2:
  assumes "I c" and "\<forall>k. E (env k)"
    and "\<forall>bs\<in>set (i2cPollTrace env n (I2CDEV d) c). G bs"
    and "\<exists>bs\<in>set (i2cPollTrace env n (I2CDEV d) c). V bs"
    and stepI: "\<And>obs c. E obs \<Longrightarrow> I c \<Longrightarrow>
        \<exists>c'. i2cStateMachine obs d c = Inr c'
           \<and> (G (busState c' ! d) \<longrightarrow> (if V (busState c' ! d) then J c' else I c'))"
    and stepJ: "\<And>obs c. E obs \<Longrightarrow> J c \<Longrightarrow>
        \<exists>c'. i2cStateMachine obs d c = Inr c' \<and> (G (busState c' ! d) \<longrightarrow> J c')"
  shows "\<exists>c'. i2cWaitForCompletion env n (I2CDEV d) c = Inr c' \<and> J c'
           \<and> state (busState c' ! d) = I2C_STATE_STOPPED"
  using assms(1,2,3,4)
proof (induction env n "I2CDEV d" c rule: i2cWaitForCompletion.induct)
  case (1 env n c)
  from "1.prems"(2) have "E (env n)" by simp
  from stepI[OF this "1.prems"(1)] obtain c1 where
    c1: "i2cStateMachine (env n) d c = Inr c1"
      "G (busState c1 ! d) \<longrightarrow> (if V (busState c1 ! d) then J c1 else I c1)" by blast
  from "1.prems"(3) c1(1) have g: "G (busState c1 ! d)"
    by (subst (asm) i2cPollTrace.simps) simp
  show ?case
  proof (cases "state (busState c1 ! d) = I2C_STATE_STOPPED")
    case True
    with "1.prems"(4) c1(1) have "V (busState c1 ! d)"
      by (subst (asm) i2cPollTrace.simps) simp
    with c1 g True show ?thesis by (subst i2cWaitForCompletion.simps) simp
  next
    case False
    from "1.prems"(3) c1(1) False have G': "\<forall>bs\<in>set (i2cPollTrace env (Suc n) (I2CDEV d) c1). G bs"
      by (subst (asm) i2cPollTrace.simps) simp
    show ?thesis
    proof (cases "V (busState c1 ! d)")
      case True
      with c1 g have "J c1" by simp
      from wait_rule[of J c1 E env "Suc n" d G, OF this "1.prems"(2) G' stepJ] c1(1) False
      show ?thesis
        by (subst i2cWaitForCompletion.simps) simp
    next
      case nV: False
      with c1 g have i: "I c1" by simp
      from "1.prems"(4) c1(1) False nV have "\<exists>bs\<in>set (i2cPollTrace env (Suc n) (I2CDEV d) c1). V bs"
        by (subst (asm) i2cPollTrace.simps) simp
      from "1.hyps"[OF refl c1(1) False i "1.prems"(2) G' this] c1(1) False show ?thesis
        by (subst i2cWaitForCompletion.simps) simp
    qed
  qed
qed

lemma trace_rule:
  assumes "J c" and "\<forall>k. E (env k)"
    and step: "\<And>obs c. E obs \<Longrightarrow> J c \<Longrightarrow> \<exists>c'. i2cStateMachine obs d c = Inr c' \<and> J c'"
    and P: "\<And>c. J c \<Longrightarrow> P (busState c ! d)"
  shows "\<forall>bs\<in>set (i2cPollTrace env n (I2CDEV d) c). P bs"
  using assms(1,2)
proof (induction env n "I2CDEV d" c rule: i2cPollTrace.induct)
  case (1 env n c)
  from "1.prems"(2) have "E (env n)" by simp
  from step[OF this "1.prems"(1)] obtain c1 where
    c1: "i2cStateMachine (env n) d c = Inr c1" "J c1" by blast
  show ?case
  proof (cases "state (busState c1 ! d) = I2C_STATE_STOPPED")
    case True
    with c1 P[OF c1(2)] show ?thesis by (subst i2cPollTrace.simps) simp
  next
    case False
    from "1.hyps"[OF refl c1(1) False c1(2) "1.prems"(2)] c1 P[OF c1(2)] False show ?thesis
      by (subst i2cPollTrace.simps) simp
  qed
qed

lemmas case_defs = case_STOPPING_def case_STARTING_def case_STARTING_WAIT_def
  case_R_ADDR_def case_R_ADDR_WAIT_def case_R_REGISTER_def case_R_REGISTER_WAIT_def
  case_R_RESTARTING_def case_R_TRANSFER_def
  case_W_ADDR_def case_W_ADDR_WAIT_def case_W_REGISTER_def case_W_REGISTER_WAIT_def
  case_W_RESTARTING_def case_W_TRANSFER_def case_NACK_def
  I2C_GetFlagStatus_def I2C_TransferHandling_def I2C_SendData_def I2C_ReceiveData_def
  I2C_ClearFlag_def

lemma smCase_frame:
  assumes "smCase s obs X (bs, h, m) = (bs', h', m')"
  shows "device bs' = device bs \<and> initialized bs' = initialized bs \<and> addr bs' = addr bs
     \<and> reg bs' = reg bs \<and> rw bs' = rw bs \<and> odr h' = odr h"
  using assms
  by (cases s) (auto simp: case_defs Let_def split: if_splits)

lemma step_total:
  assumes "busOk d c"
  shows "\<exists>c'. i2cStateMachine obs d c = Inr c' \<and> busOk d c'
     \<and> i2cHardwareMap c' = i2cHardwareMap c \<and> writeBuf c' = writeBuf c"
proof (cases "state (busState c ! d) = I2C_STATE_BUS_ERROR")
  case True
  from step_bus_error[OF assms True, of obs] assms show ?thesis
    by (auto simp: busOk_def)
next
  case False
  obtain bs' h' m' where f: "smCase (state (busState c ! d)) obs (dev (i2cHardwareMap c ! d))
           (busState c ! d, hw c, mem c) = (bs', h', m')"
    by (metis prod_cases3)
  from step_regular[OF assms False f] smCase_frame[OF f] assms show ?thesis
    by (simp add: busOk_def)
qed

lemma trace_length:
  "length (i2cPollTrace env n dv c) \<le>
     Suc (case dv of I2CINVALID \<Rightarrow> 0 | I2CDEV d \<Rightarrow> rank (busState c ! d))"
proof (induction env n dv c rule: i2cPollTrace.induct)
  case (1 env n dv c)
  show ?case
  proof (cases dv)
    case I2CINVALID
    then show ?thesis by (subst i2cPollTrace.simps) simp
  next
    case (I2CDEV d)
    show ?thesis
    proof (cases "i2cStateMachine (env n) d c")
      case (Inl e)
      with I2CDEV show ?thesis by (subst i2cPollTrace.simps) simp
    next
      case (Inr c1)
      show ?thesis
      proof (cases "state (busState c1 ! d) = I2C_STATE_STOPPED")
        case True
        with Inr I2CDEV show ?thesis by (subst i2cPollTrace.simps) simp
      next
        case False
        from "1.IH"[OF I2CDEV Inr False] sm_rank[OF Inr False] I2CDEV Inr False show ?thesis
          by (subst i2cPollTrace.simps) simp
      qed
    qed
  qed
qed

lemma busOk_setup:
  "busOk d c \<Longrightarrow> busOk d (i2cReadSetup d a r l b c)"
  "busOk d c \<Longrightarrow> busOk d (i2cWriteSetup d a r x c)"
  by (simp_all add: busOk_def i2cReadSetup_def i2cWriteSetup_def Let_def)

lemma wait_total:
  assumes "busOk d c"
  shows "\<exists>c'. i2cWaitForCompletion env n (I2CDEV d) c = Inr c' \<and> busOk d c'
     \<and> state (busState c' ! d) = I2C_STATE_STOPPED"
proof (rule wait_rule[where J="busOk d" and E="\<lambda>obs. True" and G="\<lambda>bs. True"])
  fix obs c assume "busOk d c"
  from step_total[OF this, of obs]
  show "\<exists>c'. i2cStateMachine obs d c = Inr c' \<and> (True \<longrightarrow> busOk d c')" by blast
qed (use assms in simp_all)

lemma unat_ucast_u8_u32: "unat (ucast (l::u8) :: u32) = unat l"
proof -
  have "unat l < 2 ^ 8" using unsigned_less[of l, where 'a=nat] by simp
  then have "unat l < 2 ^ 32" by simp
  then show ?thesis by (simp add: unsigned_ucast_eq take_bit_nat_eq_self)
qed

lemma step_cases:
  assumes "busOk d c"
  obtains c' where "i2cStateMachine obs d c = Inr c'" "busOk d c'"
      "i2cHardwareMap c' = i2cHardwareMap c" "writeBuf c' = writeBuf c"
      "state (busState c ! d) = I2C_STATE_BUS_ERROR"
      "busState c' ! d = (busState c ! d)
           \<lparr>device := I2CDEV d, initialized := True, state := I2C_STATE_STOPPED\<rparr>"
      "i2cErrorCount c' = i2cErrorCount c + 1"
      "hwlog (hw c') = hwlog (i2cUnstick (scl_in obs) (scl (i2cHardwareMap c ! d))
                           (sda (i2cHardwareMap c ! d)) (hw c))
                       @ initEvents (I2CDEV d) (i2cHardwareMap c ! d)"
      "mem c' = mem c"
  | c' where "i2cStateMachine obs d c = Inr c'" "busOk d c'"
      "i2cHardwareMap c' = i2cHardwareMap c" "writeBuf c' = writeBuf c"
      "state (busState c ! d) \<noteq> I2C_STATE_BUS_ERROR"
      "(busState c' ! d, hw c', mem c') =
         smCase (state (busState c ! d)) obs (dev (i2cHardwareMap c ! d))
           (busState c ! d, hw c, mem c)"
      "i2cErrorCount c' = i2cErrorCount c"
proof (cases "state (busState c ! d) = I2C_STATE_BUS_ERROR")
  case True
  from step_bus_error[OF assms True, of obs] obtain c' where
    c': "i2cStateMachine obs d c = Inr c'"
     "busState c' = (busState c)[d := (busState c ! d)
           \<lparr>device := I2CDEV d, initialized := True, state := I2C_STATE_STOPPED\<rparr>]"
     "i2cErrorCount c' = i2cErrorCount c + 1"
     "hwlog (hw c') = hwlog (i2cUnstick (scl_in obs) (scl (i2cHardwareMap c ! d))
                           (sda (i2cHardwareMap c ! d)) (hw c))
                       @ initEvents (I2CDEV d) (i2cHardwareMap c ! d)"
     "mem c' = mem c" "i2cHardwareMap c' = i2cHardwareMap c" "writeBuf c' = writeBuf c"
    by blast
  from c' assms have "busOk d c'" and "busState c' ! d = (busState c ! d)
           \<lparr>device := I2CDEV d, initialized := True, state := I2C_STATE_STOPPED\<rparr>"
    by (simp_all add: busOk_def)
  with c' True that(1) show ?thesis by blast
next
  case False
  obtain bs' h' m' where f: "smCase (state (busState c ! d)) obs (dev (i2cHardwareMap c ! d))
           (busState c ! d, hw c, mem c) = (bs', h', m')"
    by (metis prod_cases3)
  let ?c' = "c\<lparr>busState := (busState c)[d := bs'], hw := h', mem := m'\<rparr>"
  from step_regular[OF assms False f] have st: "i2cStateMachine obs d c = Inr ?c'" .
  from smCase_frame[OF f] assms have ok: "busOk d ?c'" by (simp add: busOk_def)
  from assms have "busState ?c' ! d = bs'" by (simp add: busOk_def)
  with f have "(busState ?c' ! d, hw ?c', mem ?c') =
         smCase (state (busState c ! d)) obs (dev (i2cHardwareMap c ! d))
           (busState c ! d, hw c, mem c)" by simp
  with that(2)[OF st ok _ _ False] show ?thesis by simp
qed

lemma stopped_step:
  assumes "busOk d c" and "state (busState c ! d) = I2C_STATE_STOPPED"
  shows "i2cStateMachine obs d c = Inr c"
  using assms
  by (simp add: i2cStateMachine_def busOk_def hardwareMapAt_def)



text \<open>
  The states that wait on a flag with a countdown of their own, and the states of the
  per-byte loop. The stopping state also waits on a flag, on the countdown that the
  state before it has left.
\<close>

definition waitState :: "i2cState_t \<Rightarrow> bool" where
  "waitState s \<longleftrightarrow> s = I2C_STATE_STARTING_WAIT \<or> s = I2C_STATE_R_ADDR_WAIT
     \<or> s = I2C_STATE_R_REGISTER_WAIT \<or> s = I2C_STATE_W_ADDR_WAIT
     \<or> s = I2C_STATE_W_REGISTER_WAIT"

definition transferState :: "i2cState_t \<Rightarrow> bool" where
  "transferState s \<longleftrightarrow> s = I2C_STATE_R_TRANSFER \<or> s = I2C_STATE_W_TRANSFER"

text \<open>Concrete inputs for the closed theorems below.\<close>

definition sclHigh :: "nat \<Rightarrow> bool" where
  "sclHigh k = True"

definition hw0 :: hw_state where
  "hw0 = \<lparr>hwlog = [], odr = (\<lambda>p. False)\<rparr>"

definition ctx0 :: ctx where
  "ctx0 = ctx_init False False 4096 (\<lambda>a. 0)"

text \<open>A slave that answers at once: the bus is free and every flag but the NACK is set.\<close>

definition readyObs :: hw_obs where
  "readyObs = \<lparr>flags = (\<lambda>f. f \<noteq> I2C_ISR_BUSY \<and> f \<noteq> I2C_FLAG_NACKF), rxdr = 0x71,
     scl_in = sclHigh\<rparr>"

definition readyEnv :: "nat \<Rightarrow> hw_obs" where
  "readyEnv k = readyObs"

text \<open>A bus that stays busy: no flag but the busy flag is ever set.\<close>

definition busyObs :: hw_obs where
  "busyObs = \<lparr>flags = (\<lambda>f. f = I2C_ISR_BUSY), rxdr = 0, scl_in = sclHigh\<rparr>"




text \<open>A slave that rejects its address, on a bus where the stop then completes.\<close>

definition nackObs :: hw_obs where
  "nackObs = \<lparr>flags = (\<lambda>f. f = I2C_FLAG_NACKF \<or> f = I2C_ISR_STOPF), rxdr = 0,
     scl_in = sclHigh\<rparr>"

definition nackEnv :: "nat \<Rightarrow> hw_obs" where
  "nackEnv k = nackObs"

text \<open>A slave that rejects its address, on a bus where the stop flag never comes.\<close>

definition nackStuckObs :: hw_obs where
  "nackStuckObs = \<lparr>flags = (\<lambda>f. f = I2C_FLAG_NACKF), rxdr = 0, scl_in = sclHigh\<rparr>"

definition nackStuckEnv :: "nat \<Rightarrow> hw_obs" where
  "nackStuckEnv k = nackStuckObs"

text \<open>The bus state a pointer refers to.\<close>

definition busAt :: "nat \<Rightarrow> ctx \<Rightarrow> i2cBusState_t" where
  "busAt d c = busState c ! d"

text \<open>The first bus in the middle of a transaction: in a given state, with a given countdown and remaining count.\<close>

definition ctxAt :: "i2cTransferDirection_t \<Rightarrow> i2cState_t \<Rightarrow> u32 \<Rightarrow> u32 \<Rightarrow> ctx" where
  "ctxAt dir s t l = ctx0\<lparr>busState := [zeroBusState\<lparr>state := s, timeout := t, len := l,
     buf := 100, addr := 0xD0, reg := 0x75, rw := dir\<rparr>]\<rparr>"

lemma busOk_ctxAt: "busOk 0 (ctxAt dir s t l)"
  by (simp add: busOk_def ctxAt_def ctx0_def ctx_init_def i2cHardwareMap_init_def zeroBusState_def)

lemmas at_defs = busAt_def ctxAt_def ctx0_def ctx_init_def i2cHardwareMap_init_def
  zeroBusState_def busState_init_def

lemma busOk_ctx0: "busOk 0 ctx0"
  by (simp add: busOk_def ctx0_def ctx_init_def busState_init_def i2cHardwareMap_init_def
      zeroBusState_def)

lemma rw_neq [simp]:
  "(x \<noteq> I2C_TXN_READ) = (x = I2C_TXN_WRITE)" "(x \<noteq> I2C_TXN_WRITE) = (x = I2C_TXN_READ)"
  by (cases x; simp)+

text \<open>The states of the per-byte transfer loop and of its entry.\<close>

definition transferring :: "i2cState_t \<Rightarrow> bool" where
  "transferring s \<longleftrightarrow> s = I2C_STATE_R_RESTARTING \<or> s = I2C_STATE_R_TRANSFER
     \<or> s = I2C_STATE_W_RESTARTING \<or> s = I2C_STATE_W_TRANSFER"

text \<open>What holds throughout a transaction of length zero, whatever the hardware answers.\<close>

definition zeroInv :: "nat \<Rightarrow> ctx \<Rightarrow> bool" where
  "zeroInv d c \<longleftrightarrow> busOk d c \<and> len (busState c ! d) = 0 \<and> \<not> txnOk (busState c ! d)
     \<and> \<not> transferring (state (busState c ! d))"

lemma zero_step:
  assumes "zeroInv d c"
  shows "\<exists>c'. i2cStateMachine obs d c = Inr c' \<and> zeroInv d c'"
proof -
  from assms have ok: "busOk d c" by (simp add: zeroInv_def)
  show ?thesis
  proof (cases rule: step_cases[OF ok, of obs])
    case (1 c')
    with assms show ?thesis by (simp add: zeroInv_def transferring_def)
  next
    case (2 c')
    have "zeroInv d c'"
      using assms 2(2,6)
      by (cases "state (busState c ! d)")
         (auto simp: zeroInv_def transferring_def case_defs Let_def split: if_splits)
    with 2 show ?thesis by blast
  qed
qed


section \<open>Bus recovery\<close>

text \<open>
  The waits for the release of the clock, for the reads of the clock line from the
  \<open>k\<close>-th on: a wait of \<open>w\<close> delays found the clock low at its first \<open>w\<close> reads and,
  unless \<open>w\<close> is the bound of 100, high at the next one; the wait that follows starts one
  read later.
\<close>

fun releaseWaits :: "(nat \<Rightarrow> bool) \<Rightarrow> nat \<Rightarrow> nat list \<Rightarrow> bool" where
  "releaseWaits rd k [] = True"
| "releaseWaits rd k (w # ws) =
     (w \<le> 100 \<and> (\<forall>j\<in>set [0..<w]. \<not> rd (k + j)) \<and> (w < 100 \<longrightarrow> rd (k + w))
      \<and> releaseWaits rd (Suc (k + w)) ws)"

text \<open>A clock that a slave stretches: of every three reads the first two return low.\<close>

definition sclStretched :: "nat \<Rightarrow> bool" where
  "sclStretched k \<longleftrightarrow> k mod 3 = 2"

text \<open>A clock that is held low for good.\<close>

definition sclLow :: "nat \<Rightarrow> bool" where
  "sclLow k = False"

lemma unstickWait_log:
  "\<exists>w\<le>t. hwlog (snd (unstickWait rd k t h)) = hwlog h @ replicate w (Delay 5)
      \<and> odr (snd (unstickWait rd k t h)) = odr h"
proof (induction t arbitrary: k h)
  case 0
  then show ?case by simp
next
  case (Suc t)
  show ?case
  proof (cases "rd k")
    case True
    then show ?thesis by simp
  next
    case False
    from Suc.IH[of "Suc k" "delayMicroseconds 5 h"] obtain w where
      w: "w \<le> t" "hwlog (snd (unstickWait rd (Suc k) t (delayMicroseconds 5 h)))
            = hwlog (delayMicroseconds 5 h) @ replicate w (Delay 5)"
         "odr (snd (unstickWait rd (Suc k) t (delayMicroseconds 5 h))) = odr (delayMicroseconds 5 h)"
      by blast
    with False show ?thesis
      by (intro exI[of _ "Suc w"]) simp
  qed
qed

lemma unstickPulses_log:
  "\<exists>ws. length ws = i \<and> (\<forall>w\<in>set ws. w \<le> 100)
     \<and> hwlog (snd (unstickPulses rd p k i h)) = hwlog h @
          concat (map (\<lambda>w. replicate w (Delay 5) @ [SetLo p, Delay 5, SetHi p, Delay 5]) ws)
     \<and> (\<forall>q. q \<noteq> p \<longrightarrow> odr (snd (unstickPulses rd p k i h)) q = odr h q)"
proof (induction i arbitrary: k h)
  case 0
  then show ?case by simp
next
  case (Suc i)
  obtain k1 h1 where kh: "unstickWait rd k 100 h = (k1, h1)"
    by (cases "unstickWait rd k 100 h") auto
  from unstickWait_log[of 100 rd k h] kh obtain w where
    w: "w \<le> 100" "hwlog h1 = hwlog h @ replicate w (Delay 5)" "odr h1 = odr h"
    by auto
  let ?h2 = "delayMicroseconds 5 (IOHi p (delayMicroseconds 5 (IOLo p h1)))"
  from Suc.IH[of k1 ?h2] obtain ws where
    ws: "length ws = i" "\<forall>w\<in>set ws. w \<le> 100"
      "hwlog (snd (unstickPulses rd p k1 i ?h2)) = hwlog ?h2 @
          concat (map (\<lambda>w. replicate w (Delay 5) @ [SetLo p, Delay 5, SetHi p, Delay 5]) ws)"
      "\<forall>q. q \<noteq> p \<longrightarrow> odr (snd (unstickPulses rd p k1 i ?h2)) q = odr ?h2 q"
    by blast
  with w kh show ?case
    by (intro exI[of _ "w # ws"]) (simp add: Let_def)
qed

lemma i2cUnstick_shape:
  "\<exists>ws. length ws = 9 \<and> (\<forall>w\<in>set ws. w \<le> 100)
     \<and> hwlog (i2cUnstick rd sclPin sdaPin h) =
         hwlog h @ [SetHi sclPin, SetHi sdaPin, ConfigOutOD sclPin, ConfigOutOD sdaPin]
         @ concat (map (\<lambda>w. replicate w (Delay 5) @ [SetLo sclPin, Delay 5, SetHi sclPin, Delay 5]) ws)
         @ [SetLo sclPin, Delay 5, SetLo sdaPin, Delay 5, SetHi sclPin, Delay 5, SetHi sdaPin]
     \<and> odr (i2cUnstick rd sclPin sdaPin h) sclPin
     \<and> odr (i2cUnstick rd sclPin sdaPin h) sdaPin"
proof -
  let ?h0 = "IOConfigGPIO sdaPin (IOConfigGPIO sclPin (IOHi sdaPin (IOHi sclPin h)))"
  obtain k1 h1 where kh: "unstickPulses rd sclPin 0 9 ?h0 = (k1, h1)"
    by (cases "unstickPulses rd sclPin 0 9 ?h0") auto
  from unstickPulses_log[where i=9 and p=sclPin and rd=rd and k=0 and h="?h0"] kh obtain ws where
    ws: "length ws = 9" "\<forall>w\<in>set ws. w \<le> 100"
      "hwlog h1 = hwlog ?h0 @
          concat (map (\<lambda>w. replicate w (Delay 5) @ [SetLo sclPin, Delay 5, SetHi sclPin, Delay 5]) ws)"
    by auto
  have "i2cUnstick rd sclPin sdaPin h =
      IOHi sdaPin (delayMicroseconds 5 (IOHi sclPin (delayMicroseconds 5 (IOLo sdaPin
        (delayMicroseconds 5 (IOLo sclPin h1))))))"
    using kh by (simp add: i2cUnstick_def Let_def)
  with ws show ?thesis
    by (intro exI[of _ ws]) simp
qed

lemma i2cUnstick_extends:
  "\<exists>ev. hwlog (i2cUnstick rd sclPin sdaPin h) = hwlog h @ ev"
  using i2cUnstick_shape[of rd sclPin sdaPin h] by auto

lemma unstickWait_reads:
  "\<exists>w\<le>t. fst (unstickWait rd k t h) = Suc (k + w)
      \<and> (\<forall>j<w. \<not> rd (k + j)) \<and> (w < t \<longrightarrow> rd (k + w))
      \<and> hwlog (snd (unstickWait rd k t h)) = hwlog h @ replicate w (Delay 5)
      \<and> odr (snd (unstickWait rd k t h)) = odr h"
proof (induction t arbitrary: k h)
  case 0
  then show ?case by simp
next
  case (Suc t)
  show ?case
  proof (cases "rd k")
    case True
    then show ?thesis by (intro exI[of _ 0]) simp
  next
    case False
    from Suc.IH[of "Suc k" "delayMicroseconds 5 h"] obtain w where
      w: "w \<le> t" "fst (unstickWait rd (Suc k) t (delayMicroseconds 5 h)) = Suc (Suc k + w)"
         "\<forall>j<w. \<not> rd (Suc k + j)" "w < t \<longrightarrow> rd (Suc k + w)"
         "hwlog (snd (unstickWait rd (Suc k) t (delayMicroseconds 5 h)))
            = hwlog (delayMicroseconds 5 h) @ replicate w (Delay 5)"
         "odr (snd (unstickWait rd (Suc k) t (delayMicroseconds 5 h))) = odr (delayMicroseconds 5 h)"
      by blast
    from w(3) False have "\<forall>j<Suc w. \<not> rd (k + j)"
      by (auto simp: less_Suc_eq_0_disj)
    with False w show ?thesis
      by (intro exI[of _ "Suc w"]) (simp add: replicate_append_same)
  qed
qed

lemma unstickPulses_reads:
  "\<exists>ws. length ws = i \<and> releaseWaits rd k ws
     \<and> hwlog (snd (unstickPulses rd p k i h)) = hwlog h @
          concat (map (\<lambda>w. replicate w (Delay 5) @ [SetLo p, Delay 5, SetHi p, Delay 5]) ws)
     \<and> (\<forall>q. q \<noteq> p \<longrightarrow> odr (snd (unstickPulses rd p k i h)) q = odr h q)"
proof (induction i arbitrary: k h)
  case 0
  then show ?case by simp
next
  case (Suc i)
  obtain k1 h1 where kh: "unstickWait rd k 100 h = (k1, h1)"
    by (cases "unstickWait rd k 100 h") auto
  from unstickWait_reads[of 100 rd k h] kh obtain w where
    w: "w \<le> 100" "k1 = Suc (k + w)" "\<forall>j<w. \<not> rd (k + j)" "w < 100 \<longrightarrow> rd (k + w)"
       "hwlog h1 = hwlog h @ replicate w (Delay 5)" "odr h1 = odr h"
    by auto
  let ?h2 = "delayMicroseconds 5 (IOHi p (delayMicroseconds 5 (IOLo p h1)))"
  from Suc.IH[of k1 ?h2] obtain ws where
    ws: "length ws = i" "releaseWaits rd k1 ws"
      "hwlog (snd (unstickPulses rd p k1 i ?h2)) = hwlog ?h2 @
          concat (map (\<lambda>w. replicate w (Delay 5) @ [SetLo p, Delay 5, SetHi p, Delay 5]) ws)"
      "\<forall>q. q \<noteq> p \<longrightarrow> odr (snd (unstickPulses rd p k1 i ?h2)) q = odr ?h2 q"
    by blast
  with w kh show ?case
    by (intro exI[of _ "w # ws"]) (simp add: Let_def)
qed

lemma releaseWaits_held_low:
  "releaseWaits sclLow k ws \<Longrightarrow> ws = replicate (length ws) 100"
  by (induction ws arbitrary: k) (auto simp: sclLow_def)

lemma unstickWait_numeral:
  "unstickWait rd k (numeral n) h =
     (if \<not> rd k then unstickWait rd (Suc k) (pred_numeral n) (delayMicroseconds 5 h) else (Suc k, h))"
  by (simp add: numeral_eq_Suc)

lemma unstickPulses_numeral:
  "unstickPulses rd sclPin k (numeral n) h =
     (let (k, h) = unstickWait rd k 100 h;
          h = IOLo sclPin h;
          h = delayMicroseconds 5 h;
          h = IOHi sclPin h;
          h = delayMicroseconds 5 h
      in unstickPulses rd sclPin k (pred_numeral n) h)"
  by (simp add: numeral_eq_Suc)

text \<open>
  C7. The unstick routine always issues exactly nine clock pulses, each after a wait for
  the clock line to be released: the wait reads the clock before every delay of 5
  microseconds, goes on while it reads low, and ends at the first read that returns high
  or after 100 delays. Then comes one manual stop sequence (clock low, data low, clock
  high, data high, 5 microseconds apart). This holds whatever levels the reads of the
  clock line return; on exit the output latches of both the clock and the data pin drive
  high.
\<close>

theorem i2cUnstick_nine_pulses_then_stop:
  "\<exists>ws. length ws = 9 \<and> releaseWaits rd 0 ws \<and> (\<forall>w\<in>set ws. w \<le> 100)
     \<and> hwlog (i2cUnstick rd sclPin sdaPin h) =
         hwlog h @ [SetHi sclPin, SetHi sdaPin, ConfigOutOD sclPin, ConfigOutOD sdaPin]
         @ concat (map (\<lambda>w. replicate w (Delay 5) @ [SetLo sclPin, Delay 5, SetHi sclPin, Delay 5]) ws)
         @ [SetLo sclPin, Delay 5, SetLo sdaPin, Delay 5, SetHi sclPin, Delay 5, SetHi sdaPin]
     \<and> odr (i2cUnstick rd sclPin sdaPin h) sclPin
     \<and> odr (i2cUnstick rd sclPin sdaPin h) sdaPin"
proof -
  let ?h0 = "IOConfigGPIO sdaPin (IOConfigGPIO sclPin (IOHi sdaPin (IOHi sclPin h)))"
  obtain k1 h1 where kh: "unstickPulses rd sclPin 0 9 ?h0 = (k1, h1)"
    by (cases "unstickPulses rd sclPin 0 9 ?h0") auto
  from unstickPulses_reads[where i=9 and p=sclPin and rd=rd and k=0 and h="?h0"] kh obtain ws where
    ws: "length ws = 9" "releaseWaits rd 0 ws"
      "hwlog h1 = hwlog ?h0 @
          concat (map (\<lambda>w. replicate w (Delay 5) @ [SetLo sclPin, Delay 5, SetHi sclPin, Delay 5]) ws)"
    by auto
  have bound: "releaseWaits rd k xs \<Longrightarrow> \<forall>w\<in>set xs. w \<le> 100" for k xs
    by (induction xs arbitrary: k) auto
  have "i2cUnstick rd sclPin sdaPin h =
      IOHi sdaPin (delayMicroseconds 5 (IOHi sclPin (delayMicroseconds 5 (IOLo sdaPin
        (delayMicroseconds 5 (IOLo sclPin h1))))))"
    using kh by (simp add: i2cUnstick_def Let_def)
  with ws bound[OF ws(2)] show ?thesis
    by (intro exI[of _ ws]) simp
qed

theorem i2cUnstick_nine_pulses_then_stop_witness:
  "(\<exists>ws. length ws = 9 \<and> releaseWaits sclStretched 0 ws \<and> (\<forall>w\<in>set ws. w \<le> 100)
     \<and> hwlog (i2cUnstick sclStretched PB6 PB7 hw0) =
         hwlog hw0 @ [SetHi PB6, SetHi PB7, ConfigOutOD PB6, ConfigOutOD PB7]
         @ concat (map (\<lambda>w. replicate w (Delay 5) @ [SetLo PB6, Delay 5, SetHi PB6, Delay 5]) ws)
         @ [SetLo PB6, Delay 5, SetLo PB7, Delay 5, SetHi PB6, Delay 5, SetHi PB7]
     \<and> odr (i2cUnstick sclStretched PB6 PB7 hw0) PB6
     \<and> odr (i2cUnstick sclStretched PB6 PB7 hw0) PB7)
   \<and> releaseWaits sclStretched 0 [2, 2, 2, 2, 2, 2, 2, 2, 2]
   \<and> hwlog (i2cUnstick sclStretched PB6 PB7 hw0) =
         [SetHi PB6, SetHi PB7, ConfigOutOD PB6, ConfigOutOD PB7]
         @ concat (map (\<lambda>w. replicate w (Delay 5) @ [SetLo PB6, Delay 5, SetHi PB6, Delay 5])
                    [2, 2, 2, 2, 2, 2, 2, 2, 2])
         @ [SetLo PB6, Delay 5, SetLo PB7, Delay 5, SetHi PB6, Delay 5, SetHi PB7]
   \<and> hwlog (i2cUnstick sclLow PB6 PB7 hw0) =
         [SetHi PB6, SetHi PB7, ConfigOutOD PB6, ConfigOutOD PB7]
         @ concat (map (\<lambda>w. replicate w (Delay 5) @ [SetLo PB6, Delay 5, SetHi PB6, Delay 5])
                    (replicate 9 100))
         @ [SetLo PB6, Delay 5, SetLo PB7, Delay 5, SetHi PB6, Delay 5, SetHi PB7]
   \<and> odr (i2cUnstick sclLow PB6 PB7 hw0) PB6 \<and> odr (i2cUnstick sclLow PB6 PB7 hw0) PB7"
proof -
  have lg: "hwlog (i2cUnstick sclStretched PB6 PB7 hw0) =
         [SetHi PB6, SetHi PB7, ConfigOutOD PB6, ConfigOutOD PB7]
         @ concat (map (\<lambda>w. replicate w (Delay 5) @ [SetLo PB6, Delay 5, SetHi PB6, Delay 5])
                    [2, 2, 2, 2, 2, 2, 2, 2, 2])
         @ [SetLo PB6, Delay 5, SetLo PB7, Delay 5, SetHi PB6, Delay 5, SetHi PB7]"
    by (simp add: i2cUnstick_def Let_def hw0_def sclStretched_def unstickWait_numeral
          unstickPulses_numeral numeral_2_eq_2)
  have ws: "releaseWaits sclStretched 0 [2, 2, 2, 2, 2, 2, 2, 2, 2]"
    by (simp add: sclStretched_def numeral_2_eq_2)
  from i2cUnstick_nine_pulses_then_stop[of sclLow PB6 PB7 hw0] obtain ws where
    low: "length ws = 9" "releaseWaits sclLow 0 ws"
      "hwlog (i2cUnstick sclLow PB6 PB7 hw0) =
         hwlog hw0 @ [SetHi PB6, SetHi PB7, ConfigOutOD PB6, ConfigOutOD PB7]
         @ concat (map (\<lambda>w. replicate w (Delay 5) @ [SetLo PB6, Delay 5, SetHi PB6, Delay 5]) ws)
         @ [SetLo PB6, Delay 5, SetLo PB7, Delay 5, SetHi PB6, Delay 5, SetHi PB7]"
      "odr (i2cUnstick sclLow PB6 PB7 hw0) PB6" "odr (i2cUnstick sclLow PB6 PB7 hw0) PB7"
    by blast
  from releaseWaits_held_low[OF low(2)] low(1) have "ws = replicate 9 100" by simp
  with low(3) have lw: "hwlog (i2cUnstick sclLow PB6 PB7 hw0) =
         [SetHi PB6, SetHi PB7, ConfigOutOD PB6, ConfigOutOD PB7]
         @ concat (map (\<lambda>w. replicate w (Delay 5) @ [SetLo PB6, Delay 5, SetHi PB6, Delay 5])
                    (replicate 9 100))
         @ [SetLo PB6, Delay 5, SetLo PB7, Delay 5, SetHi PB6, Delay 5, SetHi PB7]"
    by (simp add: hw0_def)
  from i2cUnstick_nine_pulses_then_stop[of sclStretched PB6 PB7 hw0] lg ws lw low(4,5)
  show ?thesis by blast
qed


section \<open>The size of the per-bus table\<close>

text \<open>
  C5. The claim is that the table of transaction states has one entry for each of the
  two entries of the hardware map, so that the second bus indexes a valid element. The
  table has one element: on the second bus \<^verbatim>\<open>i2cInit\<close>, \<^verbatim>\<open>i2cRead\<close> and
  \<^verbatim>\<open>i2cWrite\<close> index it out of bounds.
\<close>

theorem busState_too_short_for_second_bus:
  "length (i2cHardwareMap (ctx_init oc1 oc2 wb m)) = 2
   \<and> length (busState (ctx_init oc1 oc2 wb m)) = 1
   \<and> i2cInit (I2CDEV 1) (ctx_init oc1 oc2 wb m) = Inl BusStateOutOfBounds
   \<and> i2cRead env (I2CDEV 1) a r l b (ctx_init oc1 oc2 wb m) = Inl BusStateOutOfBounds
   \<and> i2cWrite env (I2CDEV 1) a r x (ctx_init oc1 oc2 wb m) = Inl BusStateOutOfBounds"
  by (simp add: ctx_init_def busState_init_def i2cHardwareMap_init_def i2cInit_def
      i2cRead_def i2cWrite_def Let_def)


section \<open>Termination of the blocking calls\<close>

text \<open>
  C8. Every read and write call on a usable bus returns, whatever the hardware answers:
  the polling loop reaches the stopped state and the call returns the outcome flag the
  bus state holds then. Every invocation of the state machine that does not reach the
  stopped state lowers the measure \<open>rank\<close>, so a write takes at most 204812
  invocations and a read of \<open>l > 0\<close> bytes at most \<open>163851 + 40961 * l\<close>.
\<close>

theorem transactions_terminate:
  assumes "busOk d c"
  shows "(\<exists>c'. i2cRead env (I2CDEV d) a r l b c = Inr (txnOk (busState c' ! d), c')
              \<and> state (busState c' ! d) = I2C_STATE_STOPPED)
       \<and> (\<exists>c'. i2cWrite env (I2CDEV d) a r x c = Inr (txnOk (busState c' ! d), c')
              \<and> state (busState c' ! d) = I2C_STATE_STOPPED)
       \<and> length (i2cPollTrace env 0 (I2CDEV d) (i2cWriteSetup d a r x c)) \<le> 204812
       \<and> (l \<noteq> 0 \<longrightarrow>
            length (i2cPollTrace env 0 (I2CDEV d) (i2cReadSetup d a r l b c))
              \<le> 163851 + 40961 * unat l)
       \<and> (\<forall>obs c c'. i2cStateMachine obs d c = Inr c'
              \<longrightarrow> state (busState c' ! d) \<noteq> I2C_STATE_STOPPED
              \<longrightarrow> rank (busState c' ! d) < rank (busState c ! d))"
proof -
  from assms have d: "d < length (busState c)" by (simp add: busOk_def)
  from wait_total[OF busOk_setup(1)[OF assms], of env 0 a r l b] d
  have rd: "\<exists>c'. i2cRead env (I2CDEV d) a r l b c = Inr (txnOk (busState c' ! d), c')
              \<and> state (busState c' ! d) = I2C_STATE_STOPPED"
    by (auto simp: i2cRead_def)
  from wait_total[OF busOk_setup(2)[OF assms], of env 0 a r x] d
  have wr: "\<exists>c'. i2cWrite env (I2CDEV d) a r x c = Inr (txnOk (busState c' ! d), c')
              \<and> state (busState c' ! d) = I2C_STATE_STOPPED"
    by (auto simp: i2cWrite_def)
  have wl: "length (i2cPollTrace env 0 (I2CDEV d) (i2cWriteSetup d a r x c)) \<le> 204812"
    using trace_length[of env 0 "I2CDEV d" "i2cWriteSetup d a r x c"] d
    by (simp add: i2cWriteSetup_def Let_def rank_def lenWeight_def)
  have rl: "l \<noteq> 0 \<longrightarrow> length (i2cPollTrace env 0 (I2CDEV d) (i2cReadSetup d a r l b c))
              \<le> 163851 + 40961 * unat l"
  proof
    assume "l \<noteq> 0"
    then have "ucast l \<noteq> (0::u32)" and "unat (ucast l :: u32) = unat l"
      by (simp_all add: unat_ucast_u8_u32 flip: unat_eq_0)
    with trace_length[of env 0 "I2CDEV d" "i2cReadSetup d a r l b c"] d
    show "length (i2cPollTrace env 0 (I2CDEV d) (i2cReadSetup d a r l b c))
              \<le> 163851 + 40961 * unat l"
      by (simp add: i2cReadSetup_def Let_def rank_def lenWeight_def)
  qed
  from rd wr wl rl sm_rank show ?thesis by blast
qed


theorem transactions_terminate_witness:
  "busOk 0 ctx0
   \<and> (\<exists>c'. i2cRead readyEnv (I2CDEV 0) 0x68 0x75 2 100 ctx0 = Inr (txnOk (busState c' ! 0), c')
          \<and> state (busState c' ! 0) = I2C_STATE_STOPPED)
   \<and> (\<exists>c'. i2cWrite readyEnv (I2CDEV 0) 0x68 0x75 0 ctx0 = Inr (txnOk (busState c' ! 0), c')
          \<and> state (busState c' ! 0) = I2C_STATE_STOPPED)
   \<and> length (i2cPollTrace readyEnv 0 (I2CDEV 0) (i2cWriteSetup 0 0x68 0x75 0 ctx0)) \<le> 204812
   \<and> length (i2cPollTrace readyEnv 0 (I2CDEV 0) (i2cReadSetup 0 0x68 0x75 2 100 ctx0)) \<le> 245773"
  using transactions_terminate[OF busOk_ctx0, of readyEnv "0x68" "0x75" 2 100 0] busOk_ctx0
  by simp


section \<open>Transactions without NACK and timeout\<close>

text \<open>
  The commands of a complete transfer that started from the bus state \<open>b0\<close>, up to the
  cursor \<open>e\<close>: the address phase, the register byte, the command that opens the data
  phase, and one \<^verbatim>\<open>I2C_ReceiveData\<close> or \<^verbatim>\<open>I2C_SendData\<close> for each address from the
  start of the buffer to \<open>e\<close>, with the byte that memory \<open>m\<close> holds there.
\<close>

definition xferLog :: "I2C_TypeDef \<Rightarrow> i2cBusState_t \<Rightarrow> (nat \<Rightarrow> u8) \<Rightarrow> nat \<Rightarrow> hw_event list" where
  "xferLog X b0 m e =
     [TransferHandling X (addr b0) 1 I2C_SoftEnd_Mode I2C_Generate_Start_Write,
      SendData X (reg b0)] @
     (case rw b0 of
        I2C_TXN_READ \<Rightarrow>
          TransferHandling X (addr b0) (ucast (len b0)) I2C_AutoEnd_Mode I2C_Generate_Start_Read #
          map (\<lambda>a. ReceiveData X (m a)) [buf b0..<e]
      | I2C_TXN_WRITE \<Rightarrow>
          TransferHandling X (addr b0) (ucast (len b0)) I2C_AutoEnd_Mode I2C_No_StartStop #
          map (\<lambda>a. SendData X (m a)) [buf b0..<e])"

lemma xferLog_0:
  "xferLog X b0 m (buf b0) =
     [TransferHandling X (addr b0) 1 I2C_SoftEnd_Mode I2C_Generate_Start_Write,
      SendData X (reg b0),
      TransferHandling X (addr b0) (ucast (len b0)) I2C_AutoEnd_Mode
        (case rw b0 of I2C_TXN_READ \<Rightarrow> I2C_Generate_Start_Read | I2C_TXN_WRITE \<Rightarrow> I2C_No_StartStop)]"
  by (simp add: xferLog_def split: i2cTransferDirection_t.splits)

lemma xferLog_read_step:
  "rw b0 = I2C_TXN_READ \<Longrightarrow> buf b0 \<le> e \<Longrightarrow> e' = Suc e \<Longrightarrow>
   xferLog X b0 m e @ [ReceiveData X b] = xferLog X b0 (m(e := b)) e'"
  by (simp add: xferLog_def)

lemma xferLog_write_step:
  "rw b0 = I2C_TXN_WRITE \<Longrightarrow> buf b0 \<le> e \<Longrightarrow> e' = Suc e \<Longrightarrow>
   xferLog X b0 m e @ [SendData X (m e)] = xferLog X b0 m e'"
  by (simp add: xferLog_def)

text \<open>
  What holds of a transaction of non-zero length as long as it has met neither a NACK nor
  a timeout, relative to the context \<open>c0\<close> it started from.
\<close>

definition healthyInv :: "nat \<Rightarrow> ctx \<Rightarrow> ctx \<Rightarrow> bool" where
  "healthyInv d c0 c \<longleftrightarrow>
     (let b0 = busState c0 ! d; bs = busState c ! d; X = dev (i2cHardwareMap c0 ! d);
          T0 = hwlog (hw c0); lg = hwlog (hw c);
          a1 = [TransferHandling X (addr b0) 1 I2C_SoftEnd_Mode I2C_Generate_Start_Write];
          a2 = a1 @ [SendData X (reg b0)] in
      busOk d c \<and> i2cHardwareMap c = i2cHardwareMap c0 \<and> i2cErrorCount c = i2cErrorCount c0
      \<and> addr bs = addr b0 \<and> reg bs = reg b0 \<and> rw bs = rw b0 \<and> len b0 \<noteq> 0
      \<and> buf b0 \<le> buf bs \<and> buf bs + unat (len bs) = buf b0 + unat (len b0)
      \<and> (\<forall>a. a \<notin> {buf b0..<buf bs} \<longrightarrow> mem c a = mem c0 a)
      \<and> (rw b0 = I2C_TXN_WRITE \<longrightarrow> mem c = mem c0)
      \<and> (case state bs of
            I2C_STATE_STARTING \<Rightarrow> lg = T0 \<and> len bs = len b0
          | I2C_STATE_STARTING_WAIT \<Rightarrow> lg = T0 \<and> len bs = len b0
          | I2C_STATE_R_ADDR \<Rightarrow> lg = T0 \<and> len bs = len b0 \<and> rw b0 = I2C_TXN_READ
          | I2C_STATE_R_ADDR_WAIT \<Rightarrow> lg = T0 @ a1 \<and> len bs = len b0 \<and> rw b0 = I2C_TXN_READ
          | I2C_STATE_R_REGISTER \<Rightarrow> lg = T0 @ a1 \<and> len bs = len b0 \<and> rw b0 = I2C_TXN_READ
          | I2C_STATE_R_REGISTER_WAIT \<Rightarrow> lg = T0 @ a2 \<and> len bs = len b0 \<and> rw b0 = I2C_TXN_READ
          | I2C_STATE_R_RESTARTING \<Rightarrow> lg = T0 @ a2 \<and> len bs = len b0 \<and> rw b0 = I2C_TXN_READ
          | I2C_STATE_R_TRANSFER \<Rightarrow>
              lg = T0 @ xferLog X b0 (mem c) (buf bs) \<and> len bs \<noteq> 0 \<and> rw b0 = I2C_TXN_READ
          | I2C_STATE_W_ADDR \<Rightarrow> lg = T0 \<and> len bs = len b0 \<and> rw b0 = I2C_TXN_WRITE
          | I2C_STATE_W_ADDR_WAIT \<Rightarrow> lg = T0 @ a1 \<and> len bs = len b0 \<and> rw b0 = I2C_TXN_WRITE
          | I2C_STATE_W_REGISTER \<Rightarrow> lg = T0 @ a1 \<and> len bs = len b0 \<and> rw b0 = I2C_TXN_WRITE
          | I2C_STATE_W_REGISTER_WAIT \<Rightarrow> lg = T0 @ a2 \<and> len bs = len b0 \<and> rw b0 = I2C_TXN_WRITE
          | I2C_STATE_W_RESTARTING \<Rightarrow> lg = T0 @ a2 \<and> len bs = len b0 \<and> rw b0 = I2C_TXN_WRITE
          | I2C_STATE_W_TRANSFER \<Rightarrow>
              lg = T0 @ xferLog X b0 (mem c) (buf bs) \<and> len bs \<noteq> 0 \<and> rw b0 = I2C_TXN_WRITE
          | I2C_STATE_STOPPING \<Rightarrow>
              lg = T0 @ xferLog X b0 (mem c) (buf bs) \<and> len bs = 0 \<and> txnOk bs
          | I2C_STATE_STOPPED \<Rightarrow>
              lg = T0 @ xferLog X b0 (mem c) (buf bs) @ [ClearFlag X I2C_ICR_STOPCF]
              \<and> len bs = 0 \<and> txnOk bs
          | I2C_STATE_NACK \<Rightarrow> False
          | I2C_STATE_BUS_ERROR \<Rightarrow> False))"

text \<open>A bus state that is neither the NACK state nor the bus error.\<close>

definition noFault :: "i2cBusState_t \<Rightarrow> bool" where
  "noFault bs \<longleftrightarrow> state bs \<noteq> I2C_STATE_NACK \<and> state bs \<noteq> I2C_STATE_BUS_ERROR"

lemma healthy_step:
  assumes "healthyInv d c0 c"
  shows "\<exists>c'. i2cStateMachine obs d c = Inr c' \<and> (noFault (busState c' ! d) \<longrightarrow> healthyInv d c0 c')"
proof -
  from assms have ok: "busOk d c" and nb: "state (busState c ! d) \<noteq> I2C_STATE_BUS_ERROR"
    by (auto simp: healthyInv_def Let_def)
  obtain bs' h' m' where f: "smCase (state (busState c ! d)) obs (dev (i2cHardwareMap c ! d))
           (busState c ! d, hw c, mem c) = (bs', h', m')"
    by (metis prod_cases3)
  note st = step_regular[OF ok nb f]
  have pos: "len (busState c ! d) \<noteq> 0 \<longrightarrow>
      unat (len (busState c ! d)) = Suc (unat (len (busState c ! d) - 1))"
    using unat_dec[of "len (busState c ! d)"] by auto
  have "noFault bs' \<longrightarrow> healthyInv d c0 (c\<lparr>busState := (busState c)[d := bs'], hw := h', mem := m'\<rparr>)"
  proof (cases "state (busState c ! d)")
    case I2C_STATE_R_TRANSFER
    with assms f pos show ?thesis
      by (auto simp: healthyInv_def Let_def noFault_def busOk_def case_defs LONG_nz
            intro!: xferLog_read_step split: if_splits)
  next
    case I2C_STATE_W_TRANSFER
    with assms f pos show ?thesis
      by (auto simp: healthyInv_def Let_def noFault_def busOk_def case_defs LONG_nz
            intro!: xferLog_write_step split: if_splits)
  next
    case I2C_STATE_R_RESTARTING
    with assms f pos show ?thesis
      by (auto simp: healthyInv_def Let_def noFault_def busOk_def case_defs LONG_nz
            xferLog_def split: if_splits)
  next
    case I2C_STATE_W_RESTARTING
    with assms f pos show ?thesis
      by (auto simp: healthyInv_def Let_def noFault_def busOk_def case_defs LONG_nz
            xferLog_def split: if_splits)
  qed (insert assms f, auto simp: healthyInv_def Let_def noFault_def busOk_def case_defs LONG_nz xferLog_0
         split: if_splits)
  with st ok show ?thesis by (simp add: busOk_def)
qed


lemmas run_defs = i2cStateMachine_def hardwareMapAt_def onBus_def case_defs
  ctx0_def ctx_init_def busState_init_def i2cHardwareMap_init_def zeroBusState_def
  readyEnv_def readyObs_def Let_def I2C_LONG_TIMEOUT_def I2C_SHORT_TIMEOUT_def
  i2cReadSetup_def i2cWriteSetup_def emit_def

lemma healthyInv_start:
  assumes "busOk d c" and "state (busState c ! d) = I2C_STATE_STARTING"
    and "len (busState c ! d) \<noteq> 0"
  shows "healthyInv d c c"
  using assms by (simp add: healthyInv_def Let_def)

text \<open>
  C1. For every read or write transaction that goes through neither the NACK state nor
  the bus-error state, the polling loop ends with the bus stopped. When its length is
  not zero, the outcome flag is true and exactly \<open>len\<close> bytes have been transferred in
  order: the log gains the address phase, the register byte, the command opening the
  data phase (with the low eight bits of \<open>len\<close> as its count), then one receive (read)
  or send (write) per byte of the buffer in address order, and the clearing of the stop
  flag. A read stores the received bytes at \<open>buf, buf + 1, ...\<close> and changes no other
  memory; a write changes none. When its length is zero, the driver departs from the
  claim: the outcome flag stays false. The seeded contexts of \<^verbatim>\<open>i2cRead\<close> and
  \<^verbatim>\<open>i2cWrite\<close> are instances (\<open>i2cReadSetup\<close>, \<open>i2cWriteSetup\<close>).
\<close>

theorem healthy_transaction_moves_len_bytes:
  assumes "busOk d c" and "state (busState c ! d) = I2C_STATE_STARTING"
    and "\<forall>bs\<in>set (i2cPollTrace env n (I2CDEV d) c). noFault bs"
  shows "\<exists>c'. i2cWaitForCompletion env n (I2CDEV d) c = Inr c'
     \<and> state (busState c' ! d) = I2C_STATE_STOPPED
     \<and> (len (busState c ! d) \<noteq> 0 \<longrightarrow>
           txnOk (busState c' ! d)
         \<and> len (busState c' ! d) = 0
         \<and> buf (busState c' ! d) = buf (busState c ! d) + unat (len (busState c ! d))
         \<and> i2cErrorCount c' = i2cErrorCount c
         \<and> hwlog (hw c') = hwlog (hw c)
              @ xferLog (dev (i2cHardwareMap c ! d)) (busState c ! d) (mem c')
                  (buf (busState c ! d) + unat (len (busState c ! d)))
              @ [ClearFlag (dev (i2cHardwareMap c ! d)) I2C_ICR_STOPCF]
         \<and> (\<forall>a. a \<notin> {buf (busState c ! d)..<buf (busState c ! d) + unat (len (busState c ! d))}
                \<longrightarrow> mem c' a = mem c a)
         \<and> (rw (busState c ! d) = I2C_TXN_WRITE \<longrightarrow> mem c' = mem c))
     \<and> (len (busState c ! d) = 0 \<and> \<not> txnOk (busState c ! d) \<longrightarrow> \<not> txnOk (busState c' ! d))"
proof -
  from wait_total[OF assms(1), of env n] obtain c' where
    c': "i2cWaitForCompletion env n (I2CDEV d) c = Inr c'"
        "state (busState c' ! d) = I2C_STATE_STOPPED" by blast
  have E: "\<forall>k. (\<lambda>obs. True) (env k)" by simp
  have nz: "txnOk (busState c' ! d)
         \<and> len (busState c' ! d) = 0
         \<and> buf (busState c' ! d) = buf (busState c ! d) + unat (len (busState c ! d))
         \<and> i2cErrorCount c' = i2cErrorCount c
         \<and> hwlog (hw c') = hwlog (hw c)
              @ xferLog (dev (i2cHardwareMap c ! d)) (busState c ! d) (mem c')
                  (buf (busState c ! d) + unat (len (busState c ! d)))
              @ [ClearFlag (dev (i2cHardwareMap c ! d)) I2C_ICR_STOPCF]
         \<and> (\<forall>a. a \<notin> {buf (busState c ! d)..<buf (busState c ! d) + unat (len (busState c ! d))}
                \<longrightarrow> mem c' a = mem c a)
         \<and> (rw (busState c ! d) = I2C_TXN_WRITE \<longrightarrow> mem c' = mem c)"
    if ln: "len (busState c ! d) \<noteq> 0"
  proof -
    from wait_rule[where J="healthyInv d c" and E="\<lambda>obs. True" and G=noFault,
        OF healthyInv_start[OF assms(1,2) ln] E assms(3) healthy_step] c'(1)
    have h: "healthyInv d c c'" by auto
    from h c'(2) have "buf (busState c' ! d) = buf (busState c ! d) + unat (len (busState c ! d))"
      by (clarsimp simp: healthyInv_def Let_def)
    with h c'(2) show ?thesis
      by (clarsimp simp: healthyInv_def Let_def)
  qed
  have z: "\<not> txnOk (busState c' ! d)"
    if "len (busState c ! d) = 0" "\<not> txnOk (busState c ! d)"
  proof -
    from assms(1,2) that have z0: "zeroInv d c" by (simp add: zeroInv_def transferring_def)
    have G: "\<forall>bs\<in>set (i2cPollTrace env n (I2CDEV d) c). True" by simp
    have step: "\<exists>c'. i2cStateMachine obs d y = Inr c' \<and> (True \<longrightarrow> zeroInv d c')"
      if "True" "zeroInv d y" for obs y
      using zero_step[OF that(2), of obs] by simp
    from wait_rule[where J="zeroInv d" and E="\<lambda>obs. True" and G="\<lambda>bs. True",
        OF z0 E G step] c'(1)
    show ?thesis by (auto simp: zeroInv_def)
  qed
  from c' nz z show ?thesis by blast
qed

theorem healthy_transaction_moves_len_bytes_witness:
  "busOk 0 (i2cReadSetup 0 0x68 0x75 2 100 ctx0)
   \<and> state (busState (i2cReadSetup 0 0x68 0x75 2 100 ctx0) ! 0) = I2C_STATE_STARTING
   \<and> len (busState (i2cReadSetup 0 0x68 0x75 2 100 ctx0) ! 0) \<noteq> 0
   \<and> map state (i2cPollTrace readyEnv 0 (I2CDEV 0) (i2cReadSetup 0 0x68 0x75 2 100 ctx0))
       = [I2C_STATE_R_ADDR, I2C_STATE_R_REGISTER, I2C_STATE_R_RESTARTING, I2C_STATE_R_TRANSFER,
          I2C_STATE_STOPPING, I2C_STATE_STOPPED]
   \<and> (\<exists>c'. i2cWaitForCompletion readyEnv 0 (I2CDEV 0) (i2cReadSetup 0 0x68 0x75 2 100 ctx0) = Inr c'
        \<and> state (busState c' ! 0) = I2C_STATE_STOPPED \<and> txnOk (busState c' ! 0)
        \<and> mem c' 100 = 0x71 \<and> mem c' 101 = 0x71
        \<and> hwlog (hw c') =
             [TransferHandling I2C1 0xD0 1 I2C_SoftEnd_Mode I2C_Generate_Start_Write,
              SendData I2C1 0x75,
              TransferHandling I2C1 0xD0 2 I2C_AutoEnd_Mode I2C_Generate_Start_Read,
              ReceiveData I2C1 (mem c' 100), ReceiveData I2C1 (mem c' 101),
              ClearFlag I2C1 I2C_ICR_STOPCF])
   \<and> map state (i2cPollTrace readyEnv 0 (I2CDEV 0) (i2cReadSetup 0 0x68 0x75 0 100 ctx0))
       = [I2C_STATE_R_ADDR, I2C_STATE_R_REGISTER, I2C_STATE_STOPPING, I2C_STATE_STOPPED]
   \<and> (\<exists>c'. i2cWaitForCompletion readyEnv 0 (I2CDEV 0) (i2cReadSetup 0 0x68 0x75 0 100 ctx0) = Inr c'
        \<and> state (busState c' ! 0) = I2C_STATE_STOPPED \<and> \<not> txnOk (busState c' ! 0))"
proof -
  let ?c = "i2cReadSetup 0 0x68 0x75 2 100 ctx0"
  let ?z = "i2cReadSetup 0 0x68 0x75 0 100 ctx0"
  have ok: "busOk 0 ?c" and okz: "busOk 0 ?z" using busOk_ctx0 by (rule busOk_setup)+
  have st: "state (busState ?c ! 0) = I2C_STATE_STARTING"
    and ln: "len (busState ?c ! 0) \<noteq> 0"
    and stz: "state (busState ?z ! 0) = I2C_STATE_STARTING"
    and lnz: "len (busState ?z ! 0) = 0" and txz: "\<not> txnOk (busState ?z ! 0)"
    by (simp_all add: run_defs)
  have tr: "map state (i2cPollTrace readyEnv 0 (I2CDEV 0) ?c)
       = [I2C_STATE_R_ADDR, I2C_STATE_R_REGISTER, I2C_STATE_R_RESTARTING, I2C_STATE_R_TRANSFER,
          I2C_STATE_STOPPING, I2C_STATE_STOPPED]"
    by (simp add: i2cPollTrace.simps run_defs)
  have trz: "map state (i2cPollTrace readyEnv 0 (I2CDEV 0) ?z)
       = [I2C_STATE_R_ADDR, I2C_STATE_R_REGISTER, I2C_STATE_STOPPING, I2C_STATE_STOPPED]"
    by (simp add: i2cPollTrace.simps run_defs)
  have nf: "\<forall>bs\<in>set (i2cPollTrace readyEnv 0 (I2CDEV 0) ?c). noFault bs"
  proof
    fix bs assume "bs \<in> set (i2cPollTrace readyEnv 0 (I2CDEV 0) ?c)"
    then have "state bs \<in> set (map state (i2cPollTrace readyEnv 0 (I2CDEV 0) ?c))" by simp
    then show "noFault bs" unfolding tr by (auto simp: noFault_def)
  qed
  have nfz: "\<forall>bs\<in>set (i2cPollTrace readyEnv 0 (I2CDEV 0) ?z). noFault bs"
  proof
    fix bs assume "bs \<in> set (i2cPollTrace readyEnv 0 (I2CDEV 0) ?z)"
    then have "state bs \<in> set (map state (i2cPollTrace readyEnv 0 (I2CDEV 0) ?z))" by simp
    then show "noFault bs" unfolding trz by (auto simp: noFault_def)
  qed
  from healthy_transaction_moves_len_bytes[OF ok st nf] ln obtain c' where
    c': "i2cWaitForCompletion readyEnv 0 (I2CDEV 0) ?c = Inr c'"
     "state (busState c' ! 0) = I2C_STATE_STOPPED" "txnOk (busState c' ! 0)"
     "hwlog (hw c') = hwlog (hw ?c)
          @ xferLog (dev (i2cHardwareMap ?c ! 0)) (busState ?c ! 0) (mem c')
              (buf (busState ?c ! 0) + unat (len (busState ?c ! 0)))
          @ [ClearFlag (dev (i2cHardwareMap ?c ! 0)) I2C_ICR_STOPCF]"
    by blast
  have lg: "hwlog (hw c') =
             [TransferHandling I2C1 0xD0 1 I2C_SoftEnd_Mode I2C_Generate_Start_Write,
              SendData I2C1 0x75,
              TransferHandling I2C1 0xD0 2 I2C_AutoEnd_Mode I2C_Generate_Start_Read,
              ReceiveData I2C1 (mem c' 100), ReceiveData I2C1 (mem c' 101),
              ClearFlag I2C1 I2C_ICR_STOPCF]"
    unfolding c'(4) by (simp add: run_defs xferLog_def upt_rec)
  have mm: "mem c' 100 = 0x71 \<and> mem c' 101 = 0x71"
    using c'(1) by (simp add: i2cWaitForCompletion.simps run_defs) auto
  from healthy_transaction_moves_len_bytes[OF okz stz nfz] lnz txz obtain z' where
    z': "i2cWaitForCompletion readyEnv 0 (I2CDEV 0) ?z = Inr z'"
     "state (busState z' ! 0) = I2C_STATE_STOPPED" "\<not> txnOk (busState z' ! 0)"
    by blast
  from ok st ln tr c'(1-3) mm lg trz z' show ?thesis by blast
qed

text \<open>
  C1 at length zero. A read of length zero from a slave that answers at once ends in the
  stopped state without NACK or timeout, and the call returns false: the branch of the
  register-wait state that stops a transaction of length zero does not set the outcome
  flag, which only the transfer states set.
\<close>

theorem zero_length_read_reports_failure:
  "map state (i2cPollTrace readyEnv 0 (I2CDEV 0) (i2cReadSetup 0 0x68 0x75 0 100 ctx0))
     = [I2C_STATE_R_ADDR, I2C_STATE_R_REGISTER, I2C_STATE_STOPPING, I2C_STATE_STOPPED]
   \<and> map_sum id fst (i2cRead readyEnv (I2CDEV 0) 0x68 0x75 0 100 ctx0) = Inr False"
  by (simp add: i2cRead_def i2cPollTrace.simps i2cWaitForCompletion.simps run_defs)



section \<open>Transactions of length zero\<close>

text \<open>The log of a transaction of length zero as long as it meets no NACK and no timeout.\<close>

definition zeroLog :: "nat \<Rightarrow> ctx \<Rightarrow> ctx \<Rightarrow> bool" where
  "zeroLog d c0 c \<longleftrightarrow>
     (let b0 = busState c0 ! d; bs = busState c ! d; X = dev (i2cHardwareMap c0 ! d);
          T0 = hwlog (hw c0); lg = hwlog (hw c);
          a1 = [TransferHandling X (addr b0) 1 I2C_SoftEnd_Mode I2C_Generate_Start_Write];
          a2 = a1 @ [SendData X (reg b0)];
          a3 = a2 @ [TransferHandling X (addr b0) 0 I2C_AutoEnd_Mode I2C_Generate_Stop] in
      busOk d c \<and> i2cHardwareMap c = i2cHardwareMap c0 \<and> i2cErrorCount c = i2cErrorCount c0
      \<and> addr bs = addr b0 \<and> reg bs = reg b0 \<and> rw bs = rw b0 \<and> len bs = 0
      \<and> mem c = mem c0
      \<and> (case state bs of
            I2C_STATE_STARTING \<Rightarrow> lg = T0
          | I2C_STATE_STARTING_WAIT \<Rightarrow> lg = T0
          | I2C_STATE_R_ADDR \<Rightarrow> lg = T0
          | I2C_STATE_R_ADDR_WAIT \<Rightarrow> lg = T0 @ a1
          | I2C_STATE_R_REGISTER \<Rightarrow> lg = T0 @ a1
          | I2C_STATE_R_REGISTER_WAIT \<Rightarrow> lg = T0 @ a2
          | I2C_STATE_W_ADDR \<Rightarrow> lg = T0
          | I2C_STATE_W_ADDR_WAIT \<Rightarrow> lg = T0 @ a1
          | I2C_STATE_W_REGISTER \<Rightarrow> lg = T0 @ a1
          | I2C_STATE_W_REGISTER_WAIT \<Rightarrow> lg = T0 @ a2
          | I2C_STATE_STOPPING \<Rightarrow> lg = T0 @ a3
          | I2C_STATE_STOPPED \<Rightarrow> lg = T0 @ a3 @ [ClearFlag X I2C_ICR_STOPCF]
          | _ \<Rightarrow> False))"

lemma zeroLog_step:
  assumes "zeroLog d c0 c"
  shows "\<exists>c'. i2cStateMachine obs d c = Inr c' \<and> (noFault (busState c' ! d) \<longrightarrow> zeroLog d c0 c')"
proof -
  from assms have ok: "busOk d c" and nb: "state (busState c ! d) \<noteq> I2C_STATE_BUS_ERROR"
    by (auto simp: zeroLog_def Let_def)
  show ?thesis
  proof (cases rule: step_cases[OF ok, of obs])
    case (1 c')
    with nb show ?thesis by simp
  next
    case (2 c')
    have "noFault (busState c' ! d) \<longrightarrow> zeroLog d c0 c'"
      using assms 2(2,3,6,7)
      by (cases "state (busState c ! d)")
         (auto simp: zeroLog_def noFault_def case_defs Let_def LONG_nz split: if_splits)
    with 2 show ?thesis by blast
  qed
qed

text \<open>
  C3. For a read or write transaction whose byte count is zero, the per-byte transfer
  loop is never entered, and without NACK and timeout the stop is issued right after the
  register phase: the log is the address phase, the register byte, the auto-ended stop
  and the clearing of the stop flag. In the outcome the driver departs from the claim:
  the call reports failure whether or not a NACK or a timeout occurs.
\<close>

theorem zero_length_transaction:
  assumes "busOk d c" and "state (busState c ! d) = I2C_STATE_STARTING"
    and "len (busState c ! d) = 0" and "\<not> txnOk (busState c ! d)"
  shows "\<exists>c'. i2cWaitForCompletion env n (I2CDEV d) c = Inr c'
     \<and> state (busState c' ! d) = I2C_STATE_STOPPED
     \<and> \<not> txnOk (busState c' ! d)
     \<and> (\<forall>bs\<in>set (i2cPollTrace env n (I2CDEV d) c). \<not> transferring (state bs))
     \<and> ((\<forall>bs\<in>set (i2cPollTrace env n (I2CDEV d) c). noFault bs) \<longrightarrow>
          hwlog (hw c') = hwlog (hw c) @
            [TransferHandling (dev (i2cHardwareMap c ! d)) (addr (busState c ! d)) 1
               I2C_SoftEnd_Mode I2C_Generate_Start_Write,
             SendData (dev (i2cHardwareMap c ! d)) (reg (busState c ! d)),
             TransferHandling (dev (i2cHardwareMap c ! d)) (addr (busState c ! d)) 0
               I2C_AutoEnd_Mode I2C_Generate_Stop,
             ClearFlag (dev (i2cHardwareMap c ! d)) I2C_ICR_STOPCF]
          \<and> i2cErrorCount c' = i2cErrorCount c \<and> mem c' = mem c)"
proof -
  from assms have z: "zeroInv d c" by (simp add: zeroInv_def transferring_def)
  from assms have zl: "zeroLog d c c" by (simp add: zeroLog_def Let_def)
  from wait_rule[where J="zeroInv d" and E="\<lambda>obs. True" and G="\<lambda>bs. True" and env=env and n=n
      and d=d, OF z] zero_step[of d]
  obtain c' where c': "i2cWaitForCompletion env n (I2CDEV d) c = Inr c'"
    "zeroInv d c'" "state (busState c' ! d) = I2C_STATE_STOPPED"
    by auto
  have tr: "\<forall>bs\<in>set (i2cPollTrace env n (I2CDEV d) c). \<not> transferring (state bs)"
    by (rule trace_rule[where J="zeroInv d" and E="\<lambda>obs. True", OF z])
       (use zero_step in \<open>auto simp: zeroInv_def\<close>)
  have lg: "(\<forall>bs\<in>set (i2cPollTrace env n (I2CDEV d) c). noFault bs) \<longrightarrow>
          hwlog (hw c') = hwlog (hw c) @
            [TransferHandling (dev (i2cHardwareMap c ! d)) (addr (busState c ! d)) 1
               I2C_SoftEnd_Mode I2C_Generate_Start_Write,
             SendData (dev (i2cHardwareMap c ! d)) (reg (busState c ! d)),
             TransferHandling (dev (i2cHardwareMap c ! d)) (addr (busState c ! d)) 0
               I2C_AutoEnd_Mode I2C_Generate_Stop,
             ClearFlag (dev (i2cHardwareMap c ! d)) I2C_ICR_STOPCF]
          \<and> i2cErrorCount c' = i2cErrorCount c \<and> mem c' = mem c"
  proof
    assume nf: "\<forall>bs\<in>set (i2cPollTrace env n (I2CDEV d) c). noFault bs"
    from wait_rule[where J="zeroLog d c" and E="\<lambda>obs. True" and G=noFault,
      OF zl _ nf zeroLog_step] c'(1)
    have "zeroLog d c c'" by auto
    with c'(3) show "hwlog (hw c') = hwlog (hw c) @
            [TransferHandling (dev (i2cHardwareMap c ! d)) (addr (busState c ! d)) 1
               I2C_SoftEnd_Mode I2C_Generate_Start_Write,
             SendData (dev (i2cHardwareMap c ! d)) (reg (busState c ! d)),
             TransferHandling (dev (i2cHardwareMap c ! d)) (addr (busState c ! d)) 0
               I2C_AutoEnd_Mode I2C_Generate_Stop,
             ClearFlag (dev (i2cHardwareMap c ! d)) I2C_ICR_STOPCF]
          \<and> i2cErrorCount c' = i2cErrorCount c \<and> mem c' = mem c"
      by (clarsimp simp: zeroLog_def Let_def)
  qed
  from c' tr lg show ?thesis by (auto simp: zeroInv_def)
qed


theorem zero_length_transaction_witness:
  "busOk 0 (i2cReadSetup 0 0x1E 0x0A 0 200 ctx0)
   \<and> state (busState (i2cReadSetup 0 0x1E 0x0A 0 200 ctx0) ! 0) = I2C_STATE_STARTING
   \<and> len (busState (i2cReadSetup 0 0x1E 0x0A 0 200 ctx0) ! 0) = 0
   \<and> \<not> txnOk (busState (i2cReadSetup 0 0x1E 0x0A 0 200 ctx0) ! 0)
   \<and> list_all noFault (i2cPollTrace readyEnv 0 (I2CDEV 0) (i2cReadSetup 0 0x1E 0x0A 0 200 ctx0))
   \<and> (\<exists>c'. i2cWaitForCompletion readyEnv 0 (I2CDEV 0) (i2cReadSetup 0 0x1E 0x0A 0 200 ctx0) = Inr c'
        \<and> state (busState c' ! 0) = I2C_STATE_STOPPED \<and> \<not> txnOk (busState c' ! 0)
        \<and> hwlog (hw c') =
             [TransferHandling I2C1 0x3C 1 I2C_SoftEnd_Mode I2C_Generate_Start_Write,
              SendData I2C1 0x0A,
              TransferHandling I2C1 0x3C 0 I2C_AutoEnd_Mode I2C_Generate_Stop,
              ClearFlag I2C1 I2C_ICR_STOPCF])"
proof -
  let ?c = "i2cReadSetup 0 0x1E 0x0A 0 200 ctx0"
  have ok: "busOk 0 ?c" using busOk_ctx0 by (rule busOk_setup)
  have st: "state (busState ?c ! 0) = I2C_STATE_STARTING"
    and ln: "len (busState ?c ! 0) = 0" and tx: "\<not> txnOk (busState ?c ! 0)"
    by (simp_all add: run_defs)
  have nf: "list_all noFault (i2cPollTrace readyEnv 0 (I2CDEV 0) ?c)"
    by (simp add: i2cPollTrace.simps run_defs noFault_def)
  from zero_length_transaction[OF ok st ln tx, of readyEnv 0] nf obtain c' where
    c': "i2cWaitForCompletion readyEnv 0 (I2CDEV 0) ?c = Inr c'"
     "state (busState c' ! 0) = I2C_STATE_STOPPED" "\<not> txnOk (busState c' ! 0)"
     "hwlog (hw c') = hwlog (hw ?c) @
            [TransferHandling (dev (i2cHardwareMap ?c ! 0)) (addr (busState ?c ! 0)) 1
               I2C_SoftEnd_Mode I2C_Generate_Start_Write,
             SendData (dev (i2cHardwareMap ?c ! 0)) (reg (busState ?c ! 0)),
             TransferHandling (dev (i2cHardwareMap ?c ! 0)) (addr (busState ?c ! 0)) 0
               I2C_AutoEnd_Mode I2C_Generate_Stop,
             ClearFlag (dev (i2cHardwareMap ?c ! 0)) I2C_ICR_STOPCF]"
    by (auto simp: list_all_iff)
  have "hwlog (hw c') =
             [TransferHandling I2C1 0x3C 1 I2C_SoftEnd_Mode I2C_Generate_Start_Write,
              SendData I2C1 0x0A,
              TransferHandling I2C1 0x3C 0 I2C_AutoEnd_Mode I2C_Generate_Stop,
              ClearFlag I2C1 I2C_ICR_STOPCF]"
    unfolding c'(4) by (simp add: run_defs)
  with ok st ln tx nf c' show ?thesis by blast
qed

text \<open>
  C3 has the outcome success exactly when no NACK and no timeout occurred. A zero-length
  read from a slave that answers at once meets neither, and the call returns false.
\<close>

theorem zero_length_outcome_is_not_success:
  "list_all noFault (i2cPollTrace readyEnv 0 (I2CDEV 0) (i2cReadSetup 0 0x1E 0x0A 0 200 ctx0))
   \<and> map_sum id fst (i2cRead readyEnv (I2CDEV 0) 0x1E 0x0A 0 200 ctx0) = Inr False"
  by (simp add: i2cRead_def i2cPollTrace.simps i2cWaitForCompletion.simps run_defs noFault_def)


section \<open>Timeouts\<close>

text \<open>
  How the outcome flag, the remaining count and the cursor of a transaction relate to
  those it started with in \<open>c0\<close>, in every state and whatever the hardware answers.
\<close>

definition txnInv :: "nat \<Rightarrow> ctx \<Rightarrow> ctx \<Rightarrow> bool" where
  "txnInv d c0 c \<longleftrightarrow>
     (let b0 = busState c0 ! d; bs = busState c ! d;
          fresh = (\<not> txnOk bs \<and> len bs = len b0 \<and> buf bs = buf b0);
          moving = (\<not> txnOk bs \<and> len bs \<noteq> 0 \<and> buf b0 \<le> buf bs
                    \<and> buf bs + unat (len bs) = buf b0 + unat (len b0));
          ended = (txnOk bs \<and> len bs = 0 \<and> len b0 \<noteq> 0
                    \<and> buf bs = buf b0 + unat (len b0));
          over = (ended \<or> fresh \<or> moving) in
      busOk d c \<and> i2cHardwareMap c = i2cHardwareMap c0
      \<and> (case state bs of
            I2C_STATE_STOPPED \<Rightarrow> over
          | I2C_STATE_STOPPING \<Rightarrow> over
          | I2C_STATE_BUS_ERROR \<Rightarrow> over
          | I2C_STATE_NACK \<Rightarrow> fresh
          | I2C_STATE_R_TRANSFER \<Rightarrow> moving
          | I2C_STATE_W_TRANSFER \<Rightarrow> moving
          | I2C_STATE_R_RESTARTING \<Rightarrow> fresh \<and> len bs \<noteq> 0
          | I2C_STATE_W_RESTARTING \<Rightarrow> fresh \<and> len bs \<noteq> 0
          | _ \<Rightarrow> fresh))"

text \<open>
  The bus recovery has run since \<open>c0\<close>: the error counter is one higher and the log ends
  with the commands of \<^verbatim>\<open>i2cUnstick\<close> followed by those of \<^verbatim>\<open>i2cInit\<close>.
\<close>

definition resetDone :: "(nat \<Rightarrow> hw_obs) \<Rightarrow> nat \<Rightarrow> ctx \<Rightarrow> ctx \<Rightarrow> bool" where
  "resetDone env d c0 c \<longleftrightarrow>
     initialized (busState c ! d)
     \<and> i2cErrorCount c = i2cErrorCount c0 + 1
     \<and> (\<exists>k h. hwlog (hw c) =
            hwlog (i2cUnstick (scl_in (env k)) (scl (i2cHardwareMap c0 ! d))
                     (sda (i2cHardwareMap c0 ! d)) h)
            @ initEvents (I2CDEV d) (i2cHardwareMap c0 ! d))"

lemma txnInv_step:
  assumes "txnInv d c0 c" and "i2cErrorCount c = i2cErrorCount c0"
  shows "\<exists>c'. i2cStateMachine (env k) d c = Inr c' \<and> txnInv d c0 c'
     \<and> (if state (busState c ! d) = I2C_STATE_BUS_ERROR
         then state (busState c' ! d) = I2C_STATE_STOPPED \<and> resetDone env d c0 c'
         else i2cErrorCount c' = i2cErrorCount c0)"
proof -
  from assms have ok: "busOk d c" by (simp add: txnInv_def Let_def)
  have pos: "len (busState c ! d) \<noteq> 0 \<longrightarrow>
      unat (len (busState c ! d)) = Suc (unat (len (busState c ! d) - 1))"
    using unat_dec[of "len (busState c ! d)"] by auto
  show ?thesis
  proof (cases rule: step_cases[OF ok, of "env k"])
    case (1 c')
    with assms have "txnInv d c0 c'" and "resetDone env d c0 c'"
      by (auto simp: txnInv_def Let_def resetDone_def)
    with 1 show ?thesis by simp
  next
    case (2 c')
    have "txnInv d c0 c'"
      using assms(1) 2(2,3,6) pos
      by (cases "state (busState c ! d)")
         (auto simp: txnInv_def case_defs Let_def LONG_nz split: if_splits)
    with 2 assms(2) show ?thesis by simp
  qed
qed


lemma txnInv_keeps:
  assumes "txnInv d c0 c"
  shows "\<exists>c'. i2cStateMachine obs d c = Inr c' \<and> txnInv d c0 c'"
proof -
  from assms have ok: "busOk d c" by (simp add: txnInv_def Let_def)
  have pos: "len (busState c ! d) \<noteq> 0 \<longrightarrow>
      unat (len (busState c ! d)) = Suc (unat (len (busState c ! d) - 1))"
    using unat_dec[of "len (busState c ! d)"] by auto
  show ?thesis
  proof (cases rule: step_cases[OF ok, of obs])
    case (1 c')
    with assms have "txnInv d c0 c'"
      by (auto simp: txnInv_def Let_def)
    with 1 show ?thesis by simp
  next
    case (2 c')
    have "txnInv d c0 c'"
      using assms(1) 2(2,3,6) pos
      by (cases "state (busState c ! d)")
         (auto simp: txnInv_def case_defs Let_def LONG_nz split: if_splits)
    with 2 show ?thesis by simp
  qed
qed

lemma txnInv_len:
  assumes "txnInv d c0 c"
  shows "unat (len (busState c ! d)) \<le> unat (len (busState c0 ! d))"
  using assms
  by (cases "state (busState c ! d)") (auto simp: txnInv_def Let_def)

lemma api_len_bound:
  assumes "busOk d c" and "state (busState c ! d) = I2C_STATE_STARTING"
    and "\<not> txnOk (busState c ! d)"
  shows "\<forall>bs\<in>set (i2cPollTrace env n (I2CDEV d) c). unat (len bs) \<le> unat (len (busState c ! d))"
proof (rule trace_rule[where J="txnInv d c" and E="\<lambda>obs. True"])
  show "txnInv d c c" using assms by (simp add: txnInv_def Let_def)
qed (simp_all add: txnInv_keeps txnInv_len)

lemma bus_error_resets:
  assumes "busOk d c" and "state (busState c ! d) = I2C_STATE_STARTING"
    and "\<not> txnOk (busState c ! d)"
    and "\<exists>bs\<in>set (i2cPollTrace env n (I2CDEV d) c). state bs = I2C_STATE_BUS_ERROR"
  shows "\<exists>c'. i2cWaitForCompletion env n (I2CDEV d) c = Inr c'
     \<and> state (busState c' ! d) = I2C_STATE_STOPPED
     \<and> txnInv d c c' \<and> resetDone env d c c'"
proof -
  let ?I = "\<lambda>x. txnInv d c x \<and> i2cErrorCount x = i2cErrorCount c
                 \<and> state (busState x ! d) \<noteq> I2C_STATE_BUS_ERROR"
  let ?J = "\<lambda>x. txnInv d c x \<and>
      ((state (busState x ! d) = I2C_STATE_BUS_ERROR \<and> i2cErrorCount x = i2cErrorCount c)
       \<or> (state (busState x ! d) = I2C_STATE_STOPPED \<and> resetDone env d c x))"
  let ?E = "\<lambda>obs. \<exists>k. obs = env k"
  have I0: "?I c" using assms(1-3) by (simp add: txnInv_def Let_def)
  have E: "\<forall>k. ?E (env k)" by blast
  have stepI: "\<exists>c'. i2cStateMachine obs d x = Inr c'
           \<and> (True \<longrightarrow> (if state (busState c' ! d) = I2C_STATE_BUS_ERROR then ?J c' else ?I c'))"
    if "?E obs" "?I x" for obs x
  proof -
    from that(1) obtain k where k: "obs = env k" by blast
    from txnInv_step[of d c x env k] that(2) k show ?thesis by auto
  qed
  have stepJ: "\<exists>c'. i2cStateMachine obs d x = Inr c' \<and> (True \<longrightarrow> ?J c')"
    if "?E obs" "?J x" for obs x
  proof -
    from that(1) obtain k where k: "obs = env k" by blast
    from that(2) consider
      (err) "txnInv d c x" "state (busState x ! d) = I2C_STATE_BUS_ERROR"
            "i2cErrorCount x = i2cErrorCount c"
      | (stopped) "txnInv d c x" "state (busState x ! d) = I2C_STATE_STOPPED" "resetDone env d c x"
      by blast
    then show ?thesis
    proof cases
      case err
      from txnInv_step[OF err(1,3), of env k] err(2) k show ?thesis by auto
    next
      case stopped
      from stopped(1) have "busOk d x" by (simp add: txnInv_def Let_def)
      from stopped_step[OF this stopped(2), of obs] stopped show ?thesis by simp
    qed
  qed
  from wait_rule2[where I="?I" and J="?J" and E="?E" and G="\<lambda>bs. True"
      and V="\<lambda>bs. state bs = I2C_STATE_BUS_ERROR" and env=env and n=n and d=d and c=c,
      OF I0 E _ assms(4) stepI stepJ]
  show ?thesis by auto
qed

text \<open>The transaction went through the bus-error state.\<close>

definition busErrorSeen :: "i2cBusState_t list \<Rightarrow> bool" where
  "busErrorSeen tr \<longleftrightarrow> (\<exists>bs\<in>set tr. state bs = I2C_STATE_BUS_ERROR)"

lemma never_stop_flag_bus_error:
  assumes "busOk d c" and "state (busState c ! d) \<noteq> I2C_STATE_STOPPED"
    and "state (busState c ! d) \<noteq> I2C_STATE_BUS_ERROR"
    and "\<forall>k. \<not> flags (env k) I2C_ISR_STOPF"
  shows "busErrorSeen (i2cPollTrace env n (I2CDEV d) c)"
proof (rule ccontr)
  assume "\<not> busErrorSeen (i2cPollTrace env n (I2CDEV d) c)"
  then have G: "\<forall>bs\<in>set (i2cPollTrace env n (I2CDEV d) c). state bs \<noteq> I2C_STATE_BUS_ERROR"
    by (simp add: busErrorSeen_def)
  let ?J = "\<lambda>x. busOk d x \<and> state (busState x ! d) \<noteq> I2C_STATE_STOPPED
               \<and> state (busState x ! d) \<noteq> I2C_STATE_BUS_ERROR"
  have step: "\<exists>c'. i2cStateMachine obs d x = Inr c'
        \<and> (state (busState c' ! d) \<noteq> I2C_STATE_BUS_ERROR \<longrightarrow> ?J c')"
    if "\<not> flags obs I2C_ISR_STOPF" "?J x" for obs x
  proof -
    from that(2) have ok: "busOk d x" by simp
    show ?thesis
    proof (cases rule: step_cases[OF ok, of obs])
      case (1 c')
      with that show ?thesis by simp
    next
      case (2 c')
      have "state (busState c' ! d) \<noteq> I2C_STATE_STOPPED"
        using that 2(6)
        by (cases "state (busState x ! d)")
           (auto simp: case_defs Let_def split: if_splits)
      with 2 show ?thesis by blast
    qed
  qed
  from wait_rule[where J="?J" and E="\<lambda>obs. \<not> flags obs I2C_ISR_STOPF"
      and G="\<lambda>bs. state bs \<noteq> I2C_STATE_BUS_ERROR" and env=env and n=n and d=d and c=c,
      OF _ assms(4) G step] assms(1-3)
  show False by auto
qed

















section \<open>NACK\<close>

text \<open>The transaction went through the NACK state.\<close>

definition nackSeen :: "i2cBusState_t list \<Rightarrow> bool" where
  "nackSeen tr \<longleftrightarrow> (\<exists>bs\<in>set tr. state bs = I2C_STATE_NACK)"

text \<open>
  The commands of the address phase, of the address and register phases, and of the NACK
  handling, for a transaction that started from the bus state \<open>b0\<close>.
\<close>

definition addrPhase :: "I2C_TypeDef \<Rightarrow> i2cBusState_t \<Rightarrow> hw_event list" where
  "addrPhase X b0 = [TransferHandling X (addr b0) 1 I2C_SoftEnd_Mode I2C_Generate_Start_Write]"

definition regPhase :: "I2C_TypeDef \<Rightarrow> i2cBusState_t \<Rightarrow> hw_event list" where
  "regPhase X b0 = addrPhase X b0 @ [SendData X (reg b0)]"

definition nackStop :: "I2C_TypeDef \<Rightarrow> i2cBusState_t \<Rightarrow> hw_event list" where
  "nackStop X b0 = [TransferHandling X (addr b0) 0 I2C_AutoEnd_Mode I2C_Generate_Stop,
                    ClearFlag X I2C_FLAG_NACKF]"

text \<open>What holds of a transaction until it reaches the NACK state, and from then on.\<close>

definition nackPre :: "nat \<Rightarrow> ctx \<Rightarrow> ctx \<Rightarrow> bool" where
  "nackPre d c0 c \<longleftrightarrow>
     (let b0 = busState c0 ! d; bs = busState c ! d; X = dev (i2cHardwareMap c0 ! d);
          T0 = hwlog (hw c0); lg = hwlog (hw c);
          quiet = (\<not> txnOk bs \<and> i2cErrorCount c = i2cErrorCount c0
                   \<and> initialized bs = initialized b0) in
      busOk d c \<and> i2cHardwareMap c = i2cHardwareMap c0
      \<and> addr bs = addr b0 \<and> reg bs = reg b0
      \<and> (case state bs of
            I2C_STATE_STARTING \<Rightarrow> quiet \<and> lg = T0
          | I2C_STATE_STARTING_WAIT \<Rightarrow> quiet \<and> lg = T0
          | I2C_STATE_R_ADDR \<Rightarrow> quiet \<and> lg = T0
          | I2C_STATE_W_ADDR \<Rightarrow> quiet \<and> lg = T0
          | I2C_STATE_R_ADDR_WAIT \<Rightarrow> quiet \<and> lg = T0 @ addrPhase X b0
          | I2C_STATE_W_ADDR_WAIT \<Rightarrow> quiet \<and> lg = T0 @ addrPhase X b0
          | I2C_STATE_R_REGISTER \<Rightarrow> quiet \<and> lg = T0 @ addrPhase X b0
          | I2C_STATE_W_REGISTER \<Rightarrow> quiet \<and> lg = T0 @ addrPhase X b0
          | I2C_STATE_R_REGISTER_WAIT \<Rightarrow> quiet \<and> lg = T0 @ regPhase X b0
          | I2C_STATE_W_REGISTER_WAIT \<Rightarrow> quiet \<and> lg = T0 @ regPhase X b0
          | I2C_STATE_NACK \<Rightarrow> False
          | _ \<Rightarrow> True))"

definition nackPost :: "nat \<Rightarrow> ctx \<Rightarrow> hw_event list \<Rightarrow> ctx \<Rightarrow> bool" where
  "nackPost d c0 pre c \<longleftrightarrow>
     (let b0 = busState c0 ! d; bs = busState c ! d; X = dev (i2cHardwareMap c0 ! d);
          T0 = hwlog (hw c0); lg = hwlog (hw c);
          quiet = (i2cErrorCount c = i2cErrorCount c0 \<and> initialized bs = initialized b0) in
      busOk d c \<and> i2cHardwareMap c = i2cHardwareMap c0 \<and> addr bs = addr b0
      \<and> \<not> txnOk bs
      \<and> (case state bs of
            I2C_STATE_NACK \<Rightarrow> quiet \<and> lg = T0 @ pre
          | I2C_STATE_STOPPING \<Rightarrow> quiet \<and> lg = T0 @ pre @ nackStop X b0
          | I2C_STATE_BUS_ERROR \<Rightarrow> quiet \<and> lg = T0 @ pre @ nackStop X b0
          | I2C_STATE_STOPPED \<Rightarrow>
              (quiet \<and> lg = T0 @ pre @ nackStop X b0 @ [ClearFlag X I2C_ICR_STOPCF])
              \<or> (i2cErrorCount c = i2cErrorCount c0 + 1
                  \<and> (\<exists>post. lg = T0 @ pre @ nackStop X b0 @ post))
          | _ \<Rightarrow> False))"

lemma nackPre_step:
  assumes "nackPre d c0 c"
  shows "\<exists>c'. i2cStateMachine obs d c = Inr c'
     \<and> (if state (busState c' ! d) = I2C_STATE_NACK
         then nackPost d c0 (addrPhase (dev (i2cHardwareMap c0 ! d)) (busState c0 ! d)) c'
              \<or> nackPost d c0 (regPhase (dev (i2cHardwareMap c0 ! d)) (busState c0 ! d)) c'
         else nackPre d c0 c')"
proof -
  from assms have ok: "busOk d c" by (simp add: nackPre_def Let_def)
  show ?thesis
  proof (cases rule: step_cases[OF ok, of obs])
    case (1 c')
    with assms show ?thesis by (simp add: nackPre_def Let_def)
  next
    case (2 c')
    have "if state (busState c' ! d) = I2C_STATE_NACK
         then nackPost d c0 (addrPhase (dev (i2cHardwareMap c0 ! d)) (busState c0 ! d)) c'
              \<or> nackPost d c0 (regPhase (dev (i2cHardwareMap c0 ! d)) (busState c0 ! d)) c'
         else nackPre d c0 c'"
      using assms 2(2,3,6,7)
      by (cases "state (busState c ! d)")
         (auto simp: nackPre_def nackPost_def case_defs Let_def LONG_nz addrPhase_def regPhase_def
            split: if_splits)
    with 2 show ?thesis by blast
  qed
qed

lemma nackPost_step:
  assumes "nackPost d c0 pre c"
  shows "\<exists>c'. i2cStateMachine obs d c = Inr c' \<and> nackPost d c0 pre c'"
proof -
  from assms have ok: "busOk d c" by (simp add: nackPost_def Let_def)
  show ?thesis
  proof (cases rule: step_cases[OF ok, of obs])
    case (1 c')
    from i2cUnstick_extends[of "scl_in obs" "scl (i2cHardwareMap c ! d)"
       "sda (i2cHardwareMap c ! d)" "hw c"]
    obtain ev where "hwlog (i2cUnstick (scl_in obs) (scl (i2cHardwareMap c ! d))
                           (sda (i2cHardwareMap c ! d)) (hw c)) = hwlog (hw c) @ ev" by blast
    with 1 assms show ?thesis by (auto simp: nackPost_def Let_def)
  next
    case (2 c')
    have "nackPost d c0 pre c'"
      using assms 2(2,3,6,7)
      by (cases "state (busState c ! d)")
         (auto simp: nackPost_def case_defs Let_def nackStop_def split: if_splits)
    with 2 show ?thesis by blast
  qed
qed

text \<open>No bus recovery has run since \<open>c0\<close>.\<close>

definition quietInv :: "nat \<Rightarrow> ctx \<Rightarrow> ctx \<Rightarrow> bool" where
  "quietInv d c0 c \<longleftrightarrow> busOk d c \<and> i2cErrorCount c = i2cErrorCount c0
     \<and> state (busState c ! d) \<noteq> I2C_STATE_BUS_ERROR"

lemma quiet_step:
  assumes "quietInv d c0 c"
  shows "\<exists>c'. i2cStateMachine obs d c = Inr c'
     \<and> (state (busState c' ! d) \<noteq> I2C_STATE_BUS_ERROR \<longrightarrow> quietInv d c0 c')"
proof -
  from assms have ok: "busOk d c" by (simp add: quietInv_def)
  show ?thesis
  proof (cases rule: step_cases[OF ok, of obs])
    case (1 c')
    with assms show ?thesis by (simp add: quietInv_def)
  next
    case (2 c')
    with assms show ?thesis by (auto simp: quietInv_def)
  qed
qed

lemma no_bus_error_no_count:
  assumes "busOk d c" and "state (busState c ! d) \<noteq> I2C_STATE_BUS_ERROR"
    and "\<not> busErrorSeen (i2cPollTrace env n (I2CDEV d) c)"
    and "i2cWaitForCompletion env n (I2CDEV d) c = Inr c'"
  shows "i2cErrorCount c' = i2cErrorCount c"
proof -
  from assms(3) have G: "\<forall>bs\<in>set (i2cPollTrace env n (I2CDEV d) c). state bs \<noteq> I2C_STATE_BUS_ERROR"
    by (simp add: busErrorSeen_def)
  have J0: "quietInv d c c" using assms(1,2) by (simp add: quietInv_def)
  have E: "\<forall>k. (\<lambda>obs. True) (env k)" by simp
  from wait_rule[where J="quietInv d c" and E="\<lambda>obs. True"
      and G="\<lambda>bs. state bs \<noteq> I2C_STATE_BUS_ERROR", OF J0 E G quiet_step] assms(4)
  show ?thesis by (auto simp: quietInv_def)
qed

lemma nackSeen_iff: "nackSeen tr \<longleftrightarrow> I2C_STATE_NACK \<in> set (map state tr)"
  by (force simp: nackSeen_def)

lemma busErrorSeen_iff: "busErrorSeen tr \<longleftrightarrow> I2C_STATE_BUS_ERROR \<in> set (map state tr)"
  by (force simp: busErrorSeen_def)

text \<open>
  C4, amended. For every transaction that is NACKed at the address or the register
  phase, the outcome is failure, and right after the commands of that phase an
  auto-ended stop is issued and the NACK flag cleared. If the wait for that stop does
  not time out, nothing else happens but the clearing of the stop flag: no unstick, no
  reinitialisation, and the global error counter is unchanged. The wait for the stop
  carries the countdown left over from the NACKed phase, so it can still time out, and
  then the bus is reset as after any timeout.
\<close>

theorem nack_stops_without_reset:
  assumes "busOk d c" and "state (busState c ! d) = I2C_STATE_STARTING"
    and "\<not> txnOk (busState c ! d)"
    and "nackSeen (i2cPollTrace env n (I2CDEV d) c)"
  shows "\<exists>c' pre post. i2cWaitForCompletion env n (I2CDEV d) c = Inr c'
     \<and> state (busState c' ! d) = I2C_STATE_STOPPED
     \<and> \<not> txnOk (busState c' ! d)
     \<and> (pre = addrPhase (dev (i2cHardwareMap c ! d)) (busState c ! d)
          \<or> pre = regPhase (dev (i2cHardwareMap c ! d)) (busState c ! d))
     \<and> hwlog (hw c') = hwlog (hw c) @ pre
          @ [TransferHandling (dev (i2cHardwareMap c ! d)) (addr (busState c ! d)) 0
               I2C_AutoEnd_Mode I2C_Generate_Stop,
             ClearFlag (dev (i2cHardwareMap c ! d)) I2C_FLAG_NACKF] @ post
     \<and> (\<not> busErrorSeen (i2cPollTrace env n (I2CDEV d) c) \<longrightarrow>
           post = [ClearFlag (dev (i2cHardwareMap c ! d)) I2C_ICR_STOPCF]
           \<and> i2cGetErrorCounter c' = i2cGetErrorCounter c
           \<and> initialized (busState c' ! d) = initialized (busState c ! d))"
proof -
  let ?X = "dev (i2cHardwareMap c ! d)" and ?b0 = "busState c ! d"
  let ?J = "\<lambda>x. nackPost d c (addrPhase ?X ?b0) x \<or> nackPost d c (regPhase ?X ?b0) x"
  have I0: "nackPre d c c" using assms(1-3) by (simp add: nackPre_def Let_def)
  have E: "\<forall>k. (\<lambda>obs. True) (env k)" by simp
  have G: "\<forall>bs\<in>set (i2cPollTrace env n (I2CDEV d) c). True" by simp
  from assms(4) have V: "\<exists>bs\<in>set (i2cPollTrace env n (I2CDEV d) c). state bs = I2C_STATE_NACK"
    by (simp add: nackSeen_def)
  have stepI: "\<exists>c'. i2cStateMachine obs d x = Inr c'
       \<and> (True \<longrightarrow> (if state (busState c' ! d) = I2C_STATE_NACK then ?J c' else nackPre d c c'))"
    if "True" "nackPre d c x" for obs x
    using nackPre_step[OF that(2), of obs] by auto
  have stepJ: "\<exists>c'. i2cStateMachine obs d x = Inr c' \<and> (True \<longrightarrow> ?J c')"
    if "True" "?J x" for obs x
    using that(2) nackPost_step[of d c _ x obs] by blast
  from wait_rule2[where I="nackPre d c" and J="?J" and E="\<lambda>obs. True" and G="\<lambda>bs. True"
      and V="\<lambda>bs. state bs = I2C_STATE_NACK", OF I0 E G V stepI stepJ]
  obtain c' where c': "i2cWaitForCompletion env n (I2CDEV d) c = Inr c'" "?J c'"
    "state (busState c' ! d) = I2C_STATE_STOPPED"
    by blast
  from c'(2) obtain pre where pre: "pre = addrPhase ?X ?b0 \<or> pre = regPhase ?X ?b0"
    "nackPost d c pre c'" by blast
  from pre(2) c'(3) have ntx: "\<not> txnOk (busState c' ! d)"
    and alt: "(i2cErrorCount c' = i2cErrorCount c
          \<and> initialized (busState c' ! d) = initialized ?b0
          \<and> hwlog (hw c') = hwlog (hw c) @ pre @ nackStop ?X ?b0 @ [ClearFlag ?X I2C_ICR_STOPCF])
       \<or> (i2cErrorCount c' = i2cErrorCount c + 1
          \<and> (\<exists>post. hwlog (hw c') = hwlog (hw c) @ pre @ nackStop ?X ?b0 @ post))"
    by (auto simp: nackPost_def Let_def)
  show ?thesis
  proof (cases "busErrorSeen (i2cPollTrace env n (I2CDEV d) c)")
    case True
    from alt obtain post where "hwlog (hw c') = hwlog (hw c) @ pre @ nackStop ?X ?b0 @ post"
      by blast
    with True c' pre ntx show ?thesis
      by (intro exI[of _ c'] exI[of _ pre] exI[of _ post]) (simp add: nackStop_def)
  next
    case False
    from no_bus_error_no_count[OF assms(1) _ False c'(1)] assms(2)
    have "i2cErrorCount c' = i2cErrorCount c" by simp
    with alt have "i2cErrorCount c' = i2cErrorCount c
          \<and> initialized (busState c' ! d) = initialized ?b0
          \<and> hwlog (hw c') = hwlog (hw c) @ pre @ nackStop ?X ?b0 @ [ClearFlag ?X I2C_ICR_STOPCF]"
      by auto
    with False c' pre ntx show ?thesis
      by (intro exI[of _ c'] exI[of _ pre] exI[of _ "[ClearFlag ?X I2C_ICR_STOPCF]"])
         (simp add: nackStop_def i2cGetErrorCounter_def)
  qed
qed


theorem nack_stops_without_reset_witness:
  "busOk 0 (i2cReadSetup 0 0x68 0x75 1 100 ctx0)
   \<and> state (busState (i2cReadSetup 0 0x68 0x75 1 100 ctx0) ! 0) = I2C_STATE_STARTING
   \<and> \<not> txnOk (busState (i2cReadSetup 0 0x68 0x75 1 100 ctx0) ! 0)
   \<and> nackSeen (i2cPollTrace nackEnv 0 (I2CDEV 0) (i2cReadSetup 0 0x68 0x75 1 100 ctx0))
   \<and> \<not> busErrorSeen (i2cPollTrace nackEnv 0 (I2CDEV 0) (i2cReadSetup 0 0x68 0x75 1 100 ctx0))
   \<and> (\<exists>c' pre. i2cWaitForCompletion nackEnv 0 (I2CDEV 0) (i2cReadSetup 0 0x68 0x75 1 100 ctx0) = Inr c'
        \<and> state (busState c' ! 0) = I2C_STATE_STOPPED \<and> \<not> txnOk (busState c' ! 0)
        \<and> (pre = [TransferHandling I2C1 0xD0 1 I2C_SoftEnd_Mode I2C_Generate_Start_Write]
             \<or> pre = [TransferHandling I2C1 0xD0 1 I2C_SoftEnd_Mode I2C_Generate_Start_Write,
                      SendData I2C1 0x75])
        \<and> hwlog (hw c') = pre @
             [TransferHandling I2C1 0xD0 0 I2C_AutoEnd_Mode I2C_Generate_Stop,
              ClearFlag I2C1 I2C_FLAG_NACKF, ClearFlag I2C1 I2C_ICR_STOPCF]
        \<and> i2cGetErrorCounter c' = 0)"
proof -
  let ?c = "i2cReadSetup 0 0x68 0x75 1 100 ctx0"
  have ok: "busOk 0 ?c" using busOk_ctx0 by (rule busOk_setup)
  have st: "state (busState ?c ! 0) = I2C_STATE_STARTING"
    and tx: "\<not> txnOk (busState ?c ! 0)"
    by (simp_all add: run_defs)
  have tr: "map state (i2cPollTrace nackEnv 0 (I2CDEV 0) ?c)
      = [I2C_STATE_R_ADDR, I2C_STATE_NACK, I2C_STATE_STOPPING, I2C_STATE_STOPPED]"
    by (simp add: i2cPollTrace.simps run_defs nackEnv_def nackObs_def)
  have seen: "nackSeen (i2cPollTrace nackEnv 0 (I2CDEV 0) ?c)"
    unfolding nackSeen_iff tr by simp
  have nb: "\<not> busErrorSeen (i2cPollTrace nackEnv 0 (I2CDEV 0) ?c)"
    unfolding busErrorSeen_iff tr by simp
  from nack_stops_without_reset[OF ok st tx seen] nb obtain c' pre where
    c': "i2cWaitForCompletion nackEnv 0 (I2CDEV 0) ?c = Inr c'"
     "state (busState c' ! 0) = I2C_STATE_STOPPED" "\<not> txnOk (busState c' ! 0)"
     "pre = addrPhase (dev (i2cHardwareMap ?c ! 0)) (busState ?c ! 0)
          \<or> pre = regPhase (dev (i2cHardwareMap ?c ! 0)) (busState ?c ! 0)"
     "hwlog (hw c') = hwlog (hw ?c) @ pre
          @ [TransferHandling (dev (i2cHardwareMap ?c ! 0)) (addr (busState ?c ! 0)) 0
               I2C_AutoEnd_Mode I2C_Generate_Stop,
             ClearFlag (dev (i2cHardwareMap ?c ! 0)) I2C_FLAG_NACKF]
          @ [ClearFlag (dev (i2cHardwareMap ?c ! 0)) I2C_ICR_STOPCF]"
     "i2cGetErrorCounter c' = i2cGetErrorCounter ?c"
    by blast
  have "pre = [TransferHandling I2C1 0xD0 1 I2C_SoftEnd_Mode I2C_Generate_Start_Write]
             \<or> pre = [TransferHandling I2C1 0xD0 1 I2C_SoftEnd_Mode I2C_Generate_Start_Write,
                      SendData I2C1 0x75]"
    using c'(4) by (simp add: addrPhase_def regPhase_def run_defs)
  moreover have "hwlog (hw c') = pre @
             [TransferHandling I2C1 0xD0 0 I2C_AutoEnd_Mode I2C_Generate_Stop,
              ClearFlag I2C1 I2C_FLAG_NACKF, ClearFlag I2C1 I2C_ICR_STOPCF]"
    unfolding c'(5) by (simp add: run_defs)
  moreover have "i2cGetErrorCounter c' = 0"
    unfolding c'(6) by (simp add: run_defs i2cGetErrorCounter_def)
  ultimately show ?thesis using ok st tx seen nb c'(1-3) by blast
qed

text \<open>
  C4 as stated excludes the bus-error path for every NACKed transaction. When the slave
  rejects its address and the stop flag never comes, the stopping state times out: the
  bus is reset and the error counter goes from 0 to 1.
\<close>

theorem nack_then_stop_timeout_resets_bus:
  "nackSeen (i2cPollTrace nackStuckEnv 0 (I2CDEV 0) (i2cReadSetup 0 0x68 0x75 1 100 ctx0))
   \<and> map_sum id (i2cGetErrorCounter \<circ> snd)
        (i2cRead nackStuckEnv (I2CDEV 0) 0x68 0x75 1 100 ctx0) = Inr 1"
proof -
  let ?c = "i2cReadSetup 0 0x68 0x75 1 100 ctx0"
  have ok: "busOk 0 ?c" using busOk_ctx0 by (rule busOk_setup)
  have st: "state (busState ?c ! 0) = I2C_STATE_STARTING"
    and tx: "\<not> txnOk (busState ?c ! 0)" and ec: "i2cErrorCount ?c = 0"
    by (simp_all add: run_defs)
  have seen: "nackSeen (i2cPollTrace nackStuckEnv 0 (I2CDEV 0) ?c)"
    by (simp add: nackSeen_def i2cPollTrace.simps[of _ 0] i2cPollTrace.simps[of _ "Suc 0"]
          run_defs nackStuckEnv_def nackStuckObs_def)
  have "busErrorSeen (i2cPollTrace nackStuckEnv 0 (I2CDEV 0) ?c)"
    by (rule never_stop_flag_bus_error[OF ok]) (simp_all add: st nackStuckEnv_def nackStuckObs_def)
  then have "\<exists>bs\<in>set (i2cPollTrace nackStuckEnv 0 (I2CDEV 0) ?c). state bs = I2C_STATE_BUS_ERROR"
    by (simp add: busErrorSeen_def)
  from bus_error_resets[OF ok st tx this] obtain c' where
    c': "i2cWaitForCompletion nackStuckEnv 0 (I2CDEV 0) ?c = Inr c'"
      "resetDone nackStuckEnv 0 ?c c'"
    by blast
  then have "i2cGetErrorCounter c' = 1"
    by (simp add: resetDone_def ec i2cGetErrorCounter_def)
  moreover have "0 < length (busState ctx0)"
    by (simp add: ctx0_def ctx_init_def busState_init_def)
  ultimately show ?thesis using seen c'(1)
    by (simp add: i2cRead_def)
qed



section \<open>The public write moves one byte\<close>

text \<open>The bytes handed to \<^verbatim>\<open>I2C_SendData\<close>, in the order of the log.\<close>

fun sentBytes :: "hw_event list \<Rightarrow> u8 list" where
  "sentBytes [] = []"
| "sentBytes (SendData X b # es) = b # sentBytes es"
| "sentBytes (e # es) = sentBytes es"

lemma sentBytes_append [simp]: "sentBytes (xs @ ys) = sentBytes xs @ sentBytes ys"
  by (induction xs rule: sentBytes.induct) simp_all

lemma sentBytes_delays [simp]: "sentBytes (replicate w (Delay us)) = []"
  by (induction w) simp_all

lemma sentBytes_pulses [simp]:
  "sentBytes (concat (map (\<lambda>w. replicate w (Delay 5) @ [SetLo p, Delay 5, SetHi p, Delay 5]) ws)) = []"
  by (induction ws) simp_all

lemma sentBytes_unstick [simp]:
  "sentBytes (hwlog (i2cUnstick rd sclPin sdaPin h)) = sentBytes (hwlog h)"
  using i2cUnstick_shape[of rd sclPin sdaPin h] by auto

lemma sentBytes_init [simp]: "sentBytes (initEvents dv i2c) = []"
  by (simp add: initEvents_def)

text \<open>
  What holds throughout a call of \<^verbatim>\<open>i2cWrite\<close> with register \<open>r\<close> and data byte \<open>x\<close>,
  relative to the context \<open>c0\<close> that the call has set up.
\<close>

definition writeInv :: "nat \<Rightarrow> ctx \<Rightarrow> u8 \<Rightarrow> u8 \<Rightarrow> ctx \<Rightarrow> bool" where
  "writeInv d c0 r x c \<longleftrightarrow>
     (let bs = busState c ! d; wb = writeBuf c0; sent0 = sentBytes (hwlog (hw c0));
          sent = sentBytes (hwlog (hw c));
          fresh = (\<not> txnOk bs \<and> len bs = 1 \<and> buf bs = wb);
          done = (txnOk bs \<and> len bs = 0 \<and> buf bs = wb + 1 \<and> sent = sent0 @ [r, x]) in
      busOk d c \<and> rw bs = I2C_TXN_WRITE \<and> reg bs = r \<and> mem c = mem c0 \<and> mem c0 wb = x
      \<and> (case state bs of
            I2C_STATE_STARTING \<Rightarrow> fresh \<and> sent = sent0
          | I2C_STATE_STARTING_WAIT \<Rightarrow> fresh \<and> sent = sent0
          | I2C_STATE_W_ADDR \<Rightarrow> fresh \<and> sent = sent0
          | I2C_STATE_W_ADDR_WAIT \<Rightarrow> fresh \<and> sent = sent0
          | I2C_STATE_W_REGISTER \<Rightarrow> fresh \<and> sent = sent0
          | I2C_STATE_W_REGISTER_WAIT \<Rightarrow> fresh \<and> sent = sent0 @ [r]
          | I2C_STATE_W_RESTARTING \<Rightarrow> fresh \<and> sent = sent0 @ [r]
          | I2C_STATE_W_TRANSFER \<Rightarrow> fresh \<and> sent = sent0 @ [r]
          | I2C_STATE_NACK \<Rightarrow> fresh \<and> (sent = sent0 \<or> sent = sent0 @ [r])
          | I2C_STATE_STOPPING \<Rightarrow> done \<or> (fresh \<and> (sent = sent0 \<or> sent = sent0 @ [r]))
          | I2C_STATE_BUS_ERROR \<Rightarrow> done \<or> (fresh \<and> (sent = sent0 \<or> sent = sent0 @ [r]))
          | I2C_STATE_STOPPED \<Rightarrow> done \<or> (fresh \<and> (sent = sent0 \<or> sent = sent0 @ [r]))
          | _ \<Rightarrow> False))"

lemma writeInv_step:
  assumes "writeInv d c0 r x c"
  shows "\<exists>c'. i2cStateMachine obs d c = Inr c' \<and> writeInv d c0 r x c'"
proof -
  from assms have ok: "busOk d c" by (simp add: writeInv_def Let_def)
  show ?thesis
  proof (cases rule: step_cases[OF ok, of obs])
    case (1 c')
    with assms show ?thesis by (auto simp: writeInv_def Let_def)
  next
    case (2 c')
    have "writeInv d c0 r x c'"
      using assms 2(2,6)
      by (cases "state (busState c ! d)")
         (auto simp: writeInv_def case_defs Let_def LONG_nz split: if_splits)
    with 2 show ?thesis by blast
  qed
qed

lemma writeInv_setup:
  assumes "busOk d c"
  shows "writeInv d (i2cWriteSetup d a r x c) r x (i2cWriteSetup d a r x c)"
  using assms by (simp add: writeInv_def i2cWriteSetup_def Let_def busOk_def)


lemma writeHealthy_step:
  assumes "writeInv d c0 r x c \<and> noFault (busState c ! d)
      \<and> (state (busState c ! d) \<in> {I2C_STATE_STOPPING, I2C_STATE_STOPPED} \<longrightarrow> txnOk (busState c ! d))"
  shows "\<exists>c'. i2cStateMachine obs d c = Inr c' \<and> (noFault (busState c' ! d) \<longrightarrow>
      writeInv d c0 r x c' \<and> noFault (busState c' ! d)
      \<and> (state (busState c' ! d) \<in> {I2C_STATE_STOPPING, I2C_STATE_STOPPED} \<longrightarrow> txnOk (busState c' ! d)))"
proof -
  from assms have ok: "busOk d c" by (simp add: writeInv_def Let_def)
  from writeInv_step[of d c0 r x c obs] assms obtain c' where
    c': "i2cStateMachine obs d c = Inr c'" "writeInv d c0 r x c'" by blast
  show ?thesis
  proof (cases rule: step_cases[OF ok, of obs])
    case (1 y)
    with assms show ?thesis by (simp add: noFault_def)
  next
    case (2 y)
    with c' have eq: "(busState c' ! d, hw c', mem c') =
         smCase (state (busState c ! d)) obs (dev (i2cHardwareMap c ! d))
           (busState c ! d, hw c, mem c)" by simp
    have "noFault (busState c' ! d) \<longrightarrow>
      (state (busState c' ! d) \<in> {I2C_STATE_STOPPING, I2C_STATE_STOPPED} \<longrightarrow> txnOk (busState c' ! d))"
      using assms eq
      by (cases "state (busState c ! d)")
         (auto simp: writeInv_def noFault_def case_defs Let_def LONG_nz split: if_splits)
    with c' show ?thesis by blast
  qed
qed

text \<open>
  C10, amended. \<^verbatim>\<open>i2cWrite\<close> sets the remaining count to 1 and points the cursor at
  its internal one-byte buffer, into which it has copied the data byte, and returns the
  outcome flag of the polling loop it runs on that transaction. In every bus state the
  call goes through, the count is 1 until the outcome flag is set and 0 from then on,
  with the cursor one past the buffer: the register-wait state never sees a count of 0
  (the zero-length stop is not taken) and the transfer state always sees a count of 1 (it
  never comes back for a second byte). A call that returns success has sent exactly the
  register byte and the one data byte, and every call that meets neither NACK nor
  timeout returns success; a call that returns failure has sent no data byte.
\<close>

theorem i2cWrite_moves_one_byte:
  assumes "busOk d c"
  shows "len (busState (i2cWriteSetup d a r x c) ! d) = 1
     \<and> buf (busState (i2cWriteSetup d a r x c) ! d) = writeBuf c
     \<and> mem (i2cWriteSetup d a r x c) (writeBuf c) = x
     \<and> (\<forall>bs\<in>set (i2cPollTrace env 0 (I2CDEV d) (i2cWriteSetup d a r x c)).
            (state bs = I2C_STATE_W_REGISTER_WAIT \<longrightarrow> len bs = 1)
          \<and> (state bs = I2C_STATE_W_TRANSFER \<longrightarrow> len bs = 1 \<and> buf bs = writeBuf c)
          \<and> (if txnOk bs then len bs = 0 \<and> buf bs = writeBuf c + 1
              else len bs = 1 \<and> buf bs = writeBuf c))
     \<and> (\<exists>c'. i2cWaitForCompletion env 0 (I2CDEV d) (i2cWriteSetup d a r x c) = Inr c'
           \<and> i2cWrite env (I2CDEV d) a r x c = Inr (txnOk (busState c' ! d), c')
           \<and> state (busState c' ! d) = I2C_STATE_STOPPED
           \<and> (if txnOk (busState c' ! d)
               then sentBytes (hwlog (hw c')) = sentBytes (hwlog (hw c)) @ [r, x]
               else sentBytes (hwlog (hw c')) = sentBytes (hwlog (hw c))
                    \<or> sentBytes (hwlog (hw c')) = sentBytes (hwlog (hw c)) @ [r])
           \<and> ((\<forall>bs\<in>set (i2cPollTrace env 0 (I2CDEV d) (i2cWriteSetup d a r x c)). noFault bs)
                 \<longrightarrow> txnOk (busState c' ! d)))"
proof -
  let ?c = "i2cWriteSetup d a r x c"
  from assms have d: "d < length (busState c)" by (simp add: busOk_def)
  have J0: "writeInv d ?c r x ?c" by (rule writeInv_setup[OF assms])
  have E: "\<forall>k. (\<lambda>obs. True) (env k)" by simp
  have G: "\<forall>bs\<in>set (i2cPollTrace env 0 (I2CDEV d) ?c). True" by simp
  have wb: "writeBuf ?c = writeBuf c" and lg: "hwlog (hw ?c) = hwlog (hw c)"
    by (simp_all add: i2cWriteSetup_def Let_def)
  have seed: "len (busState ?c ! d) = 1 \<and> buf (busState ?c ! d) = writeBuf c
     \<and> mem ?c (writeBuf c) = x"
    using d by (simp add: i2cWriteSetup_def Let_def)
  have st0: "state (busState ?c ! d) = I2C_STATE_STARTING"
    using d by (simp add: i2cWriteSetup_def Let_def)
  have tr: "\<forall>bs\<in>set (i2cPollTrace env 0 (I2CDEV d) ?c).
            (state bs = I2C_STATE_W_REGISTER_WAIT \<longrightarrow> len bs = 1)
          \<and> (state bs = I2C_STATE_W_TRANSFER \<longrightarrow> len bs = 1 \<and> buf bs = writeBuf c)
          \<and> (if txnOk bs then len bs = 0 \<and> buf bs = writeBuf c + 1
              else len bs = 1 \<and> buf bs = writeBuf c)"
  proof (rule trace_rule[where J="writeInv d ?c r x" and E="\<lambda>obs. True", OF J0 E])
    fix obs y assume "writeInv d ?c r x y"
    then show "\<exists>c'. i2cStateMachine obs d y = Inr c' \<and> writeInv d ?c r x c'"
      by (rule writeInv_step)
  next
    fix y assume "writeInv d ?c r x y"
    then show "(state (busState y ! d) = I2C_STATE_W_REGISTER_WAIT \<longrightarrow> len (busState y ! d) = 1)
          \<and> (state (busState y ! d) = I2C_STATE_W_TRANSFER \<longrightarrow>
                len (busState y ! d) = 1 \<and> buf (busState y ! d) = writeBuf c)
          \<and> (if txnOk (busState y ! d)
              then len (busState y ! d) = 0 \<and> buf (busState y ! d) = writeBuf c + 1
              else len (busState y ! d) = 1 \<and> buf (busState y ! d) = writeBuf c)"
      unfolding writeInv_def Let_def wb
      by (cases "state (busState y ! d)") auto
  qed
  have step: "\<exists>c'. i2cStateMachine obs d y = Inr c' \<and> (True \<longrightarrow> writeInv d ?c r x c')"
    if "True" "writeInv d ?c r x y" for obs y
    using writeInv_step[OF that(2), of obs] by simp
  from wait_rule[where J="writeInv d ?c r x" and E="\<lambda>obs. True" and G="\<lambda>bs. True",
      OF J0 E G step]
  obtain c' where c': "i2cWaitForCompletion env 0 (I2CDEV d) ?c = Inr c'"
    "writeInv d ?c r x c'" "state (busState c' ! d) = I2C_STATE_STOPPED"
    by blast
  from c'(2,3) have fin: "if txnOk (busState c' ! d)
      then sentBytes (hwlog (hw c')) = sentBytes (hwlog (hw c)) @ [r, x]
      else sentBytes (hwlog (hw c')) = sentBytes (hwlog (hw c))
           \<or> sentBytes (hwlog (hw c')) = sentBytes (hwlog (hw c)) @ [r]"
    unfolding writeInv_def Let_def lg by auto
  have wr: "i2cWrite env (I2CDEV d) a r x c = Inr (txnOk (busState c' ! d), c')"
    using d c'(1) by (simp add: i2cWrite_def)
  have healthy: "(\<forall>bs\<in>set (i2cPollTrace env 0 (I2CDEV d) ?c). noFault bs) \<longrightarrow> txnOk (busState c' ! d)"
  proof
    assume nf: "\<forall>bs\<in>set (i2cPollTrace env 0 (I2CDEV d) ?c). noFault bs"
    let ?H = "\<lambda>y. writeInv d ?c r x y \<and> noFault (busState y ! d)
      \<and> (state (busState y ! d) \<in> {I2C_STATE_STOPPING, I2C_STATE_STOPPED} \<longrightarrow> txnOk (busState y ! d))"
    have H0: "?H ?c" using J0 st0 by (simp add: noFault_def)
    have stepH: "\<exists>c'. i2cStateMachine obs d y = Inr c' \<and> (noFault (busState c' ! d) \<longrightarrow> ?H c')"
      if "True" "?H y" for obs y
      using writeHealthy_step[OF that(2), of obs] .
    from wait_rule[where J="?H" and E="\<lambda>obs. True" and G=noFault, OF H0 E nf stepH] c'(1,3)
    show "txnOk (busState c' ! d)" by auto
  qed
  from c'(1,3) wr fin healthy
  have "\<exists>c'. i2cWaitForCompletion env 0 (I2CDEV d) ?c = Inr c'
           \<and> i2cWrite env (I2CDEV d) a r x c = Inr (txnOk (busState c' ! d), c')
           \<and> state (busState c' ! d) = I2C_STATE_STOPPED
           \<and> (if txnOk (busState c' ! d)
               then sentBytes (hwlog (hw c')) = sentBytes (hwlog (hw c)) @ [r, x]
               else sentBytes (hwlog (hw c')) = sentBytes (hwlog (hw c))
                    \<or> sentBytes (hwlog (hw c')) = sentBytes (hwlog (hw c)) @ [r])
           \<and> ((\<forall>bs\<in>set (i2cPollTrace env 0 (I2CDEV d) ?c). noFault bs)
                 \<longrightarrow> txnOk (busState c' ! d))"
    by blast
  with seed tr show ?thesis by blast
qed

theorem i2cWrite_moves_one_byte_witness:
  "busOk 0 ctx0
   \<and> len (busState (i2cWriteSetup 0 0x68 0x75 0x2A ctx0) ! 0) = 1
   \<and> buf (busState (i2cWriteSetup 0 0x68 0x75 0x2A ctx0) ! 0) = writeBuf ctx0
   \<and> mem (i2cWriteSetup 0 0x68 0x75 0x2A ctx0) (writeBuf ctx0) = 0x2A
   \<and> map (\<lambda>bs. (state bs, len bs, txnOk bs))
        (i2cPollTrace readyEnv 0 (I2CDEV 0) (i2cWriteSetup 0 0x68 0x75 0x2A ctx0))
      = [(I2C_STATE_W_ADDR, 1, False), (I2C_STATE_W_REGISTER, 1, False),
         (I2C_STATE_W_RESTARTING, 1, False), (I2C_STATE_STOPPING, 0, True),
         (I2C_STATE_STOPPED, 0, True)]
   \<and> (\<exists>c'. i2cWrite readyEnv (I2CDEV 0) 0x68 0x75 0x2A ctx0 = Inr (True, c')
         \<and> state (busState c' ! 0) = I2C_STATE_STOPPED
         \<and> sentBytes (hwlog (hw c')) = [0x75, 0x2A])"
proof -
  let ?c = "i2cWriteSetup 0 0x68 0x75 0x2A ctx0"
  have tr: "map (\<lambda>bs. (state bs, len bs, txnOk bs)) (i2cPollTrace readyEnv 0 (I2CDEV 0) ?c)
      = [(I2C_STATE_W_ADDR, 1, False), (I2C_STATE_W_REGISTER, 1, False),
         (I2C_STATE_W_RESTARTING, 1, False), (I2C_STATE_STOPPING, 0, True),
         (I2C_STATE_STOPPED, 0, True)]"
    by (simp add: i2cPollTrace.simps run_defs)
  have nf: "\<forall>bs\<in>set (i2cPollTrace readyEnv 0 (I2CDEV 0) ?c). noFault bs"
  proof
    fix bs assume "bs \<in> set (i2cPollTrace readyEnv 0 (I2CDEV 0) ?c)"
    then have "(state bs, len bs, txnOk bs)
        \<in> set (map (\<lambda>bs. (state bs, len bs, txnOk bs)) (i2cPollTrace readyEnv 0 (I2CDEV 0) ?c))"
      by force
    then show "noFault bs" unfolding tr by (auto simp: noFault_def)
  qed
  have s0: "sentBytes (hwlog (hw ctx0)) = []" by (simp add: run_defs)
  from i2cWrite_moves_one_byte[OF busOk_ctx0, of "0x68" "0x75" "0x2A" readyEnv] nf s0
  obtain c' where c': "i2cWrite readyEnv (I2CDEV 0) 0x68 0x75 0x2A ctx0 = Inr (txnOk (busState c' ! 0), c')"
     "state (busState c' ! 0) = I2C_STATE_STOPPED" "txnOk (busState c' ! 0)"
     "if txnOk (busState c' ! 0) then sentBytes (hwlog (hw c')) = [] @ [0x75, 0x2A]
      else sentBytes (hwlog (hw c')) = [] \<or> sentBytes (hwlog (hw c')) = [] @ [0x75]"
    by auto
  then have "\<exists>c'. i2cWrite readyEnv (I2CDEV 0) 0x68 0x75 0x2A ctx0 = Inr (True, c')
         \<and> state (busState c' ! 0) = I2C_STATE_STOPPED
         \<and> sentBytes (hwlog (hw c')) = [0x75, 0x2A]"
    by auto
  with i2cWrite_moves_one_byte[OF busOk_ctx0, of "0x68" "0x75" "0x2A" readyEnv] busOk_ctx0 tr
  show ?thesis by simp
qed

text \<open>
  C10 as stated has every write transfer exactly one data byte. A write to a slave that
  rejects its address is stopped in the address phase: it returns failure and has sent
  neither the register byte nor the data byte.
\<close>

theorem nacked_write_sends_no_data_byte:
  "map_sum id (\<lambda>(ok, c'). (ok, sentBytes (hwlog (hw c'))))
      (i2cWrite nackEnv (I2CDEV 0) 0x68 0x75 0x2A ctx0) = Inr (False, [])"
  by (simp add: i2cWrite_def i2cWaitForCompletion.simps run_defs nackEnv_def nackObs_def)



section \<open>The countdown of the waiting states\<close>

text \<open>
  The state whose case falls through into each wait or transfer state, and the flag that
  moves a byte in the per-byte loop.
\<close>

fun entryOf :: "i2cState_t \<Rightarrow> i2cState_t" where
  "entryOf I2C_STATE_STARTING_WAIT = I2C_STATE_STARTING"
| "entryOf I2C_STATE_R_ADDR_WAIT = I2C_STATE_R_ADDR"
| "entryOf I2C_STATE_R_REGISTER_WAIT = I2C_STATE_R_REGISTER"
| "entryOf I2C_STATE_R_TRANSFER = I2C_STATE_R_RESTARTING"
| "entryOf I2C_STATE_W_ADDR_WAIT = I2C_STATE_W_ADDR"
| "entryOf I2C_STATE_W_REGISTER_WAIT = I2C_STATE_W_REGISTER"
| "entryOf I2C_STATE_W_TRANSFER = I2C_STATE_W_RESTARTING"
| "entryOf s = s"

definition byteReady :: "hw_obs \<Rightarrow> i2cState_t \<Rightarrow> bool" where
  "byteReady obs s \<longleftrightarrow>
     (s = I2C_STATE_R_TRANSFER \<or> s = I2C_STATE_R_RESTARTING) \<and> I2C_GetFlagStatus obs I2C_ISR_RXNE
     \<or> (s = I2C_STATE_W_TRANSFER \<or> s = I2C_STATE_W_RESTARTING) \<and> I2C_GetFlagStatus obs I2C_ISR_TXIS"

text \<open>
  C6, amended. In every wait state, and in the stopping state, an invocation that finds
  the countdown non-zero lowers it by exactly one; in a transfer state it does so unless
  it moves a byte, and then it re-seeds the countdown to the long timeout constant. The
  case that falls through into a wait or transfer state seeds the countdown from the
  long timeout constant before the first check, and a wait or transfer state is entered
  from no other state. An invocation that finds the countdown at zero goes to the
  bus-error state whatever flags are set.
\<close>

theorem timeout_countdown:
  assumes "busOk d c" and "i2cStateMachine obs d c = Inr c'"
  shows "((waitState (state (busAt d c)) \<or> transferState (state (busAt d c))
           \<or> state (busAt d c) = I2C_STATE_STOPPING) \<and> timeout (busAt d c) = 0
          \<longrightarrow> state (busAt d c') = I2C_STATE_BUS_ERROR)
     \<and> ((waitState (state (busAt d c)) \<or> state (busAt d c) = I2C_STATE_STOPPING)
           \<and> timeout (busAt d c) \<noteq> 0
          \<longrightarrow> timeout (busAt d c') = timeout (busAt d c) - 1
              \<and> unat (timeout (busAt d c')) < unat (timeout (busAt d c))
              \<and> state (busAt d c') \<noteq> I2C_STATE_BUS_ERROR)
     \<and> (transferState (state (busAt d c)) \<and> timeout (busAt d c) \<noteq> 0
          \<longrightarrow> (if byteReady obs (state (busAt d c))
               then timeout (busAt d c') = I2C_LONG_TIMEOUT
               else timeout (busAt d c') = timeout (busAt d c) - 1
                    \<and> unat (timeout (busAt d c')) < unat (timeout (busAt d c)))
              \<and> state (busAt d c') \<noteq> I2C_STATE_BUS_ERROR)
     \<and> ((waitState s \<or> transferState s) \<and> state (busAt d c) = entryOf s
          \<longrightarrow> (if byteReady obs (state (busAt d c))
               then timeout (busAt d c') = I2C_LONG_TIMEOUT
               else timeout (busAt d c') = I2C_LONG_TIMEOUT - 1)
              \<and> state (busAt d c') \<noteq> I2C_STATE_BUS_ERROR)
     \<and> ((waitState (state (busAt d c')) \<or> transferState (state (busAt d c')))
           \<and> state (busAt d c') \<noteq> state (busAt d c)
          \<longrightarrow> state (busAt d c) = entryOf (state (busAt d c')))"
proof (cases rule: step_cases[OF assms(1), of obs])
  case (1 x)
  with assms(2) show ?thesis
    by (cases s) (simp_all add: busAt_def waitState_def transferState_def)
next
  case (2 x)
  with assms(2) have eq: "(busState c' ! d, hw c', mem c') =
         smCase (state (busState c ! d)) obs (dev (i2cHardwareMap c ! d))
           (busState c ! d, hw c, mem c)" by simp
  have dec: "timeout (busState c ! d) \<noteq> 0 \<longrightarrow>
      unat (timeout (busState c ! d) - 1) < unat (timeout (busState c ! d))"
    using unat_dec[of "timeout (busState c ! d)"] by auto
  show ?thesis
    using eq dec
    by (cases "state (busState c ! d)"; cases s)
       (auto simp: busAt_def waitState_def transferState_def byteReady_def case_defs Let_def
          LONG_nz split: if_splits)
qed


theorem timeout_countdown_witness:
  "busOk 0 (ctxAt I2C_TXN_WRITE I2C_STATE_W_ADDR_WAIT 7 1)
   \<and> (\<exists>c'. i2cStateMachine busyObs 0 (ctxAt I2C_TXN_WRITE I2C_STATE_W_ADDR_WAIT 7 1) = Inr c'
         \<and> timeout (busAt 0 c') = 6
         \<and> state (busAt 0 c') \<noteq> I2C_STATE_BUS_ERROR)"
proof -
  let ?c = "ctxAt I2C_TXN_WRITE I2C_STATE_W_ADDR_WAIT 7 1"
  from step_total[OF busOk_ctxAt, of busyObs I2C_TXN_WRITE I2C_STATE_W_ADDR_WAIT 7 1]
  obtain c' where c': "i2cStateMachine busyObs 0 ?c = Inr c'" by blast
  have "waitState (state (busAt 0 ?c))" and "timeout (busAt 0 ?c) = 7"
    by (simp_all add: at_defs waitState_def)
  with timeout_countdown[OF busOk_ctxAt c'] have "timeout (busAt 0 c') = 6"
    "state (busAt 0 c') \<noteq> I2C_STATE_BUS_ERROR"
    by simp_all
  with c' busOk_ctxAt show ?thesis by blast
qed

text \<open>
  C6 as stated has the countdown decrease on each invocation in a transfer state. An
  invocation that receives a byte with the countdown at 5 leaves it at 40960.
\<close>

theorem transfer_invocation_reseeds_countdown:
  "state (busAt 0 (ctxAt I2C_TXN_READ I2C_STATE_R_TRANSFER 5 2)) = I2C_STATE_R_TRANSFER
   \<and> timeout (busAt 0 (ctxAt I2C_TXN_READ I2C_STATE_R_TRANSFER 5 2)) = 5
   \<and> map_sum id (state \<circ> busAt 0)
        (i2cStateMachine readyObs 0 (ctxAt I2C_TXN_READ I2C_STATE_R_TRANSFER 5 2))
      = Inr I2C_STATE_R_TRANSFER
   \<and> map_sum id (timeout \<circ> busAt 0)
        (i2cStateMachine readyObs 0 (ctxAt I2C_TXN_READ I2C_STATE_R_TRANSFER 5 2))
      = Inr 40960"
  by (simp add: at_defs i2cStateMachine_def hardwareMapAt_def onBus_def case_defs readyObs_def
      Let_def I2C_LONG_TIMEOUT_def I2C_SHORT_TIMEOUT_def)


section \<open>Opening the data phase\<close>

lemma ucast_len_fits:
  "unat (l::u32) < 256 \<Longrightarrow> unat (ucast l :: u8) = unat l"
  by (simp add: unsigned_ucast_eq take_bit_nat_eq_self)

text \<open>
  C9. After the register phase with a non-zero remaining count, a write goes to the
  restarting state, whose command keeps the direction, in auto-end mode with neither
  start nor stop, and then pushes one byte for each invocation that finds the
  transmit-ready flag set; a read goes to its restarting state, whose command is a
  repeated start as a read in auto-end mode. The count of both commands is the remaining
  count converted to eight bits, which is the remaining count itself when that is below
  256, as it is in every bus state of a transaction that \<^verbatim>\<open>i2cRead\<close> or
  \<^verbatim>\<open>i2cWrite\<close> starts.
\<close>

theorem data_phase_setup:
  assumes "busOk d c" and "i2cStateMachine obs d c = Inr c'"
  shows "(state (busAt d c) = I2C_STATE_W_REGISTER_WAIT \<and> timeout (busAt d c) \<noteq> 0
           \<and> I2C_GetFlagStatus obs I2C_ISR_TC \<and> len (busAt d c) \<noteq> 0
          \<longrightarrow> state (busAt d c') = I2C_STATE_W_RESTARTING \<and> hwlog (hw c') = hwlog (hw c))
     \<and> (state (busAt d c) = I2C_STATE_W_RESTARTING
          \<longrightarrow> hwlog (hw c') = hwlog (hw c)
                @ TransferHandling (dev (i2cHardwareMap c ! d)) (addr (busAt d c))
                    (ucast (len (busAt d c))) I2C_AutoEnd_Mode I2C_No_StartStop
                # (if I2C_GetFlagStatus obs I2C_ISR_TXIS
                   then [SendData (dev (i2cHardwareMap c ! d)) (mem c (buf (busAt d c)))] else [])
              \<and> len (busAt d c')
                  = (if I2C_GetFlagStatus obs I2C_ISR_TXIS then len (busAt d c) - 1 else len (busAt d c))
              \<and> buf (busAt d c')
                  = (if I2C_GetFlagStatus obs I2C_ISR_TXIS then buf (busAt d c) + 1 else buf (busAt d c)))
     \<and> (state (busAt d c) = I2C_STATE_W_TRANSFER \<and> timeout (busAt d c) \<noteq> 0
          \<longrightarrow> hwlog (hw c') = hwlog (hw c)
                @ (if I2C_GetFlagStatus obs I2C_ISR_TXIS
                   then [SendData (dev (i2cHardwareMap c ! d)) (mem c (buf (busAt d c)))] else [])
              \<and> len (busAt d c')
                  = (if I2C_GetFlagStatus obs I2C_ISR_TXIS then len (busAt d c) - 1 else len (busAt d c))
              \<and> buf (busAt d c')
                  = (if I2C_GetFlagStatus obs I2C_ISR_TXIS then buf (busAt d c) + 1 else buf (busAt d c)))
     \<and> (state (busAt d c) = I2C_STATE_R_REGISTER_WAIT \<and> timeout (busAt d c) \<noteq> 0
           \<and> I2C_GetFlagStatus obs I2C_ISR_TC \<and> len (busAt d c) \<noteq> 0
          \<longrightarrow> state (busAt d c') = I2C_STATE_R_RESTARTING \<and> hwlog (hw c') = hwlog (hw c))
     \<and> (state (busAt d c) = I2C_STATE_R_RESTARTING
          \<longrightarrow> hwlog (hw c') = hwlog (hw c)
                @ TransferHandling (dev (i2cHardwareMap c ! d)) (addr (busAt d c))
                    (ucast (len (busAt d c))) I2C_AutoEnd_Mode I2C_Generate_Start_Read
                # (if I2C_GetFlagStatus obs I2C_ISR_RXNE
                   then [ReceiveData (dev (i2cHardwareMap c ! d)) (rxdr obs)] else []))
     \<and> (unat (len (busAt d c)) < 256
          \<longrightarrow> unat (ucast (len (busAt d c)) :: u8) = unat (len (busAt d c)))
     \<and> (\<forall>bs\<in>set (i2cPollTrace env 0 (I2CDEV d) (i2cReadSetup d a r l b c)). unat (len bs) < 256)
     \<and> (\<forall>bs\<in>set (i2cPollTrace env 0 (I2CDEV d) (i2cWriteSetup d a r x c)). unat (len bs) < 256)"
proof -
  have stepf: "(state (busAt d c) = I2C_STATE_W_REGISTER_WAIT \<and> timeout (busAt d c) \<noteq> 0
           \<and> I2C_GetFlagStatus obs I2C_ISR_TC \<and> len (busAt d c) \<noteq> 0
          \<longrightarrow> state (busAt d c') = I2C_STATE_W_RESTARTING \<and> hwlog (hw c') = hwlog (hw c))
     \<and> (state (busAt d c) = I2C_STATE_W_RESTARTING
          \<longrightarrow> hwlog (hw c') = hwlog (hw c)
                @ TransferHandling (dev (i2cHardwareMap c ! d)) (addr (busAt d c))
                    (ucast (len (busAt d c))) I2C_AutoEnd_Mode I2C_No_StartStop
                # (if I2C_GetFlagStatus obs I2C_ISR_TXIS
                   then [SendData (dev (i2cHardwareMap c ! d)) (mem c (buf (busAt d c)))] else [])
              \<and> len (busAt d c')
                  = (if I2C_GetFlagStatus obs I2C_ISR_TXIS then len (busAt d c) - 1 else len (busAt d c))
              \<and> buf (busAt d c')
                  = (if I2C_GetFlagStatus obs I2C_ISR_TXIS then buf (busAt d c) + 1 else buf (busAt d c)))
     \<and> (state (busAt d c) = I2C_STATE_W_TRANSFER \<and> timeout (busAt d c) \<noteq> 0
          \<longrightarrow> hwlog (hw c') = hwlog (hw c)
                @ (if I2C_GetFlagStatus obs I2C_ISR_TXIS
                   then [SendData (dev (i2cHardwareMap c ! d)) (mem c (buf (busAt d c)))] else [])
              \<and> len (busAt d c')
                  = (if I2C_GetFlagStatus obs I2C_ISR_TXIS then len (busAt d c) - 1 else len (busAt d c))
              \<and> buf (busAt d c')
                  = (if I2C_GetFlagStatus obs I2C_ISR_TXIS then buf (busAt d c) + 1 else buf (busAt d c)))
     \<and> (state (busAt d c) = I2C_STATE_R_REGISTER_WAIT \<and> timeout (busAt d c) \<noteq> 0
           \<and> I2C_GetFlagStatus obs I2C_ISR_TC \<and> len (busAt d c) \<noteq> 0
          \<longrightarrow> state (busAt d c') = I2C_STATE_R_RESTARTING \<and> hwlog (hw c') = hwlog (hw c))
     \<and> (state (busAt d c) = I2C_STATE_R_RESTARTING
          \<longrightarrow> hwlog (hw c') = hwlog (hw c)
                @ TransferHandling (dev (i2cHardwareMap c ! d)) (addr (busAt d c))
                    (ucast (len (busAt d c))) I2C_AutoEnd_Mode I2C_Generate_Start_Read
                # (if I2C_GetFlagStatus obs I2C_ISR_RXNE
                   then [ReceiveData (dev (i2cHardwareMap c ! d)) (rxdr obs)] else []))"
  proof (cases rule: step_cases[OF assms(1), of obs])
    case (1 x)
    with assms(2) show ?thesis by (simp add: busAt_def)
  next
    case (2 x)
    with assms(2) have eq: "(busState c' ! d, hw c', mem c') =
         smCase (state (busState c ! d)) obs (dev (i2cHardwareMap c ! d))
           (busState c ! d, hw c, mem c)" by simp
    show ?thesis
      using eq
      by (cases "state (busState c ! d)")
         (auto simp: busAt_def case_defs Let_def LONG_nz split: if_splits)
  qed
  from assms(1) have d: "d < length (busState c)" by (simp add: busOk_def)
  have l8: "unat l < 256" using unsigned_less[of l, where 'a=nat] by simp
  have rd: "\<forall>bs\<in>set (i2cPollTrace env 0 (I2CDEV d) (i2cReadSetup d a r l b c)). unat (len bs) < 256"
  proof
    fix bs assume bs: "bs \<in> set (i2cPollTrace env 0 (I2CDEV d) (i2cReadSetup d a r l b c))"
    have "unat (len bs) \<le> unat (len (busState (i2cReadSetup d a r l b c) ! d))"
      using api_len_bound[OF busOk_setup(1)[OF assms(1)], of a r l b env 0] d bs
      by (simp add: i2cReadSetup_def)
    also have "\<dots> = unat l" using d by (simp add: i2cReadSetup_def unat_ucast_u8_u32)
    finally show "unat (len bs) < 256" using l8 by simp
  qed
  have wr: "\<forall>bs\<in>set (i2cPollTrace env 0 (I2CDEV d) (i2cWriteSetup d a r x c)). unat (len bs) < 256"
  proof
    fix bs assume bs: "bs \<in> set (i2cPollTrace env 0 (I2CDEV d) (i2cWriteSetup d a r x c))"
    have "unat (len bs) \<le> unat (len (busState (i2cWriteSetup d a r x c) ! d))"
      using api_len_bound[OF busOk_setup(2)[OF assms(1)], of a r x env 0] d bs
      by (simp add: i2cWriteSetup_def Let_def)
    also have "\<dots> = 1" using d by (simp add: i2cWriteSetup_def Let_def)
    finally show "unat (len bs) < 256" by simp
  qed
  from stepf ucast_len_fits[of "len (busAt d c)"] rd wr show ?thesis by blast
qed

theorem data_phase_setup_witness:
  "busOk 0 (ctxAt I2C_TXN_WRITE I2C_STATE_W_RESTARTING 0 1)
   \<and> (\<exists>c'. i2cStateMachine readyObs 0 (ctxAt I2C_TXN_WRITE I2C_STATE_W_RESTARTING 0 1) = Inr c'
         \<and> hwlog (hw c') =
              [TransferHandling I2C1 0xD0 1 I2C_AutoEnd_Mode I2C_No_StartStop, SendData I2C1 0]
         \<and> len (busAt 0 c') = 0 \<and> buf (busAt 0 c') = 101)
   \<and> busOk 0 (ctxAt I2C_TXN_READ I2C_STATE_R_RESTARTING 0 300)
   \<and> (\<exists>c'. i2cStateMachine busyObs 0 (ctxAt I2C_TXN_READ I2C_STATE_R_RESTARTING 0 300) = Inr c'
         \<and> hwlog (hw c') =
              [TransferHandling I2C1 0xD0 44 I2C_AutoEnd_Mode I2C_Generate_Start_Read])
   \<and> list_all (\<lambda>bs. unat (len bs) < 256)
        (i2cPollTrace readyEnv 0 (I2CDEV 0) (i2cReadSetup 0 0x68 0x75 255 100 ctx0))"
proof -
  let ?c = "ctxAt I2C_TXN_WRITE I2C_STATE_W_RESTARTING 0 1"
  let ?r = "ctxAt I2C_TXN_READ I2C_STATE_R_RESTARTING 0 300"
  from step_total[OF busOk_ctxAt, of readyObs I2C_TXN_WRITE I2C_STATE_W_RESTARTING 0 1]
  obtain c' where c': "i2cStateMachine readyObs 0 ?c = Inr c'" by blast
  from step_total[OF busOk_ctxAt, of busyObs I2C_TXN_READ I2C_STATE_R_RESTARTING 0 300]
  obtain r' where r': "i2cStateMachine busyObs 0 ?r = Inr r'" by blast
  have "state (busAt 0 ?c) = I2C_STATE_W_RESTARTING" by (simp add: at_defs)
  with data_phase_setup[OF busOk_ctxAt c'] have
    "hwlog (hw c') = [TransferHandling I2C1 0xD0 1 I2C_AutoEnd_Mode I2C_No_StartStop, SendData I2C1 0]"
    "len (busAt 0 c') = 0" "buf (busAt 0 c') = 101"
    by (simp_all add: at_defs readyObs_def I2C_GetFlagStatus_def)
  with c' have a: "\<exists>c'. i2cStateMachine readyObs 0 ?c = Inr c'
         \<and> hwlog (hw c') =
              [TransferHandling I2C1 0xD0 1 I2C_AutoEnd_Mode I2C_No_StartStop, SendData I2C1 0]
         \<and> len (busAt 0 c') = 0 \<and> buf (busAt 0 c') = 101" by blast
  have "state (busAt 0 ?r) = I2C_STATE_R_RESTARTING" by (simp add: at_defs)
  with data_phase_setup[OF busOk_ctxAt r'] have
    "hwlog (hw r') = [TransferHandling I2C1 0xD0 44 I2C_AutoEnd_Mode I2C_Generate_Start_Read]"
    by (simp add: at_defs busyObs_def I2C_GetFlagStatus_def)
  with r' have b: "\<exists>c'. i2cStateMachine busyObs 0 ?r = Inr c'
         \<and> hwlog (hw c') =
              [TransferHandling I2C1 0xD0 44 I2C_AutoEnd_Mode I2C_Generate_Start_Read]" by blast
  from data_phase_setup[OF busOk_ctx0 stopped_step[OF busOk_ctx0], of readyObs readyEnv "0x68" "0x75" 255 100]
  have t: "list_all (\<lambda>bs. unat (len bs) < 256)
        (i2cPollTrace readyEnv 0 (I2CDEV 0) (i2cReadSetup 0 0x68 0x75 255 100 ctx0))"
    by (simp add: list_all_iff run_defs)
  from a b t busOk_ctxAt show ?thesis by blast
qed


end
